theory Spec2Isabelle
  imports Main
begin

section \<open>JavaScript strings\<close>

text \<open>
  A JavaScript string is a sequence of UTF-16 code units; a code unit is modelled as a
  natural number. \<open>js\<close> reads an ASCII literal. A backslash cannot be written inside a
  HOL string literal, so the regular-expression sources below are written with \<open>%\<close> in the
  place of every backslash and read with \<open>pat\<close>; neither pattern of the source contains a
  percent sign.
\<close>


type_synonym jsstring = "nat list"

abbreviation js :: "string \<Rightarrow> jsstring" where "js s \<equiv> map of_char s"

definition pat :: "string \<Rightarrow> jsstring" where
  "pat s = map (\<lambda>c. if c = CHR ''%'' then 92 else of_char c) s"

section \<open>Regular expressions: \<open>new RegExp(source, 'g')\<close>\<close>

text \<open>
  The source builds its two patterns with the \<open>RegExp\<close> constructor, the first one around a
  tag that the caller chooses, so the constructor is part of the program: it is modelled
  here after ECMAScript (editions 2018 to 2024) for a pattern without the \<open>u\<close>, \<open>i\<close>, \<open>m\<close>
  and \<open>s\<close> flags, with the web-compatibility grammar of Annex B. \<open>SyntaxError\<close> is the
  error of the constructor. The one part left out is a group name that is not made of
  ASCII letters, digits, \<open>$\<close> and \<open>_\<close> (it needs the Unicode identifier tables): such a
  pattern is answered with \<open>Unsupported\<close>.
\<close>

datatype error = SyntaxError | TypeError | RangeError | Unsupported

datatype cclass = ClsD | ClsW | ClsS

datatype citem = CRange nat nat | CClass bool cclass

datatype regex =
    REmpty
  | RChar nat
  | RAny
  | RSet bool "citem list"
  | REol
  | RSeq regex regex
  | RAlt regex regex
  | RRep regex nat "nat option" bool
  | RGroup nat regex
  | RLook bool regex
  | RBackref nat
  | RBol
  | RWordB bool
  | RBehind bool regex

definition is_digit :: "nat \<Rightarrow> bool" where
  "is_digit c \<longleftrightarrow> 48 \<le> c \<and> c \<le> 57"

definition is_letter :: "nat \<Rightarrow> bool" where
  "is_letter c \<longleftrightarrow> (97 \<le> c \<and> c \<le> 122) \<or> (65 \<le> c \<and> c \<le> 90)"

definition is_word :: "nat \<Rightarrow> bool" where
  "is_word c \<longleftrightarrow> (97 \<le> c \<and> c \<le> 122) \<or> (65 \<le> c \<and> c \<le> 90) \<or> is_digit c \<or> c = 95"

definition is_space :: "nat \<Rightarrow> bool" where
  "is_space c \<longleftrightarrow> (9 \<le> c \<and> c \<le> 13) \<or> c = 32 \<or> c = 160 \<or> c = 5760 \<or>
     (8192 \<le> c \<and> c \<le> 8202) \<or> c = 8232 \<or> c = 8233 \<or> c = 8239 \<or> c = 8287 \<or>
     c = 12288 \<or> c = 65279"

definition is_line_terminator :: "nat \<Rightarrow> bool" where
  "is_line_terminator c \<longleftrightarrow> c = 10 \<or> c = 13 \<or> c = 8232 \<or> c = 8233"

fun in_cclass :: "cclass \<Rightarrow> nat \<Rightarrow> bool" where
  "in_cclass ClsD c = is_digit c"
| "in_cclass ClsW c = is_word c"
| "in_cclass ClsS c = is_space c"

fun in_citem :: "citem \<Rightarrow> nat \<Rightarrow> bool" where
  "in_citem (CRange lo hi) c = (lo \<le> c \<and> c \<le> hi)"
| "in_citem (CClass compl k) c = (in_cclass k c \<noteq> compl)"

definition in_items :: "citem list \<Rightarrow> nat \<Rightarrow> bool" where
  "in_items items c = list_ex (\<lambda>it. in_citem it c) items"

subsection \<open>Reading the pattern text\<close>

datatype gkind = GCapture | GNamed jsstring | GPlain | GLook bool | GBehind bool

text \<open>
  \<open>TQuest\<close> is the character \<open>?\<close>, a quantifier after an atom and the mark of a lazy
  quantifier after a quantifier. \<open>TDecimal\<close> is a backslash followed by a decimal number
  that does not start with 0: whether it is a back reference is known only once the groups
  of the whole pattern are counted.
\<close>

datatype token = TAtom regex | TAssert regex | TOpen gkind | TClose | TBar
  | TQuant nat "nat option" | TQuest | TDecimal jsstring | TNameRef jsstring | TErr error

datatype cstate = CNone | CAfter nat | CDash nat

fun add_char :: "cstate \<Rightarrow> citem list \<Rightarrow> nat \<Rightarrow> (cstate \<times> citem list) option" where
  "add_char CNone acc c = Some (CAfter c, acc)"
| "add_char (CAfter lo) acc c = Some (CAfter c, CRange lo lo # acc)"
| "add_char (CDash lo) acc c = (if lo \<le> c then Some (CNone, CRange lo c # acc) else None)"

fun flush :: "cstate \<Rightarrow> citem list \<Rightarrow> citem list" where
  "flush CNone acc = acc"
| "flush (CAfter lo) acc = CRange lo lo # acc"
| "flush (CDash lo) acc = CRange 45 45 # CRange lo lo # acc"

definition hexval :: "nat \<Rightarrow> nat option" where
  "hexval c = (if is_digit c then Some (c - 48)
     else if 97 \<le> c \<and> c \<le> 102 then Some (c - 87)
     else if 65 \<le> c \<and> c \<le> 70 then Some (c - 55) else None)"

fun hexs :: "jsstring \<Rightarrow> nat \<Rightarrow> nat option" where
  "hexs [] acc = Some acc"
| "hexs (c # cs) acc = (case hexval c of None \<Rightarrow> None | Some v \<Rightarrow> hexs cs (acc * 16 + v))"

definition hex_n :: "nat \<Rightarrow> jsstring \<Rightarrow> nat option" where
  "hex_n n cs = (if length cs < n then None else hexs (take n cs) 0)"

fun digits_val :: "jsstring \<Rightarrow> nat \<Rightarrow> nat" where
  "digits_val [] acc = acc"
| "digits_val (c # cs) acc = digits_val cs (acc * 10 + (c - 48))"

definition is_octal :: "nat \<Rightarrow> bool" where
  "is_octal c \<longleftrightarrow> 48 \<le> c \<and> c \<le> 55"

text \<open>
  The legacy octal escape that starts a run of digits (Annex B): its value and the number
  of digits it takes. It takes at most three octal digits and its value is at most
  \<open>0o377\<close>; \<open>8\<close> and \<open>9\<close> stand for themselves.
\<close>

definition octal_escape :: "jsstring \<Rightarrow> nat \<times> nat" where
  "octal_escape cs =
     (case cs of
        [] \<Rightarrow> (0, 0)
      | a # r1 \<Rightarrow>
          if \<not> is_octal a then (a, 1)
          else
            (case r1 of
               [] \<Rightarrow> (a - 48, 1)
             | b # r2 \<Rightarrow>
                 if \<not> is_octal b then (a - 48, 1)
                 else if 52 \<le> a then ((a - 48) * 8 + (b - 48), 2)
                 else
                   (case r2 of
                      [] \<Rightarrow> ((a - 48) * 8 + (b - 48), 2)
                    | c # r3 \<Rightarrow>
                        if is_octal c then (((a - 48) * 8 + (b - 48)) * 8 + (c - 48), 3)
                        else ((a - 48) * 8 + (b - 48), 2))))"

definition control_escape :: "nat \<Rightarrow> nat option" where
  "control_escape d = (if d = 110 then Some 10 else if d = 116 then Some 9
     else if d = 114 then Some 13 else if d = 102 then Some 12
     else if d = 118 then Some 11 else None)"

definition class_escape :: "nat \<Rightarrow> citem option" where
  "class_escape d = (if d = 100 then Some (CClass False ClsD)
     else if d = 68 then Some (CClass True ClsD)
     else if d = 119 then Some (CClass False ClsW)
     else if d = 87 then Some (CClass True ClsW)
     else if d = 115 then Some (CClass False ClsS)
     else if d = 83 then Some (CClass True ClsS) else None)"

text \<open>
  The text of a braced quantifier after its \<open>{\<close>: \<open>n}\<close>, \<open>n,}\<close> or \<open>n,m}\<close>, with the number
  of characters it takes. A \<open>{\<close> that starts none of these is an ordinary character.
\<close>

definition brace_quant :: "jsstring \<Rightarrow> ((nat \<times> nat option) \<times> nat) option" where
  "brace_quant cs =
     (let d1 = takeWhile is_digit cs; r1 = dropWhile is_digit cs in
      if d1 = [] then None
      else
        (case r1 of
           [] \<Rightarrow> None
         | x # r2 \<Rightarrow>
             if x = 125 then Some ((digits_val d1 0, Some (digits_val d1 0)), Suc (length d1))
             else if x = 44 then
               (let d2 = takeWhile is_digit r2; r3 = dropWhile is_digit r2 in
                case r3 of
                  [] \<Rightarrow> None
                | y # r4 \<Rightarrow>
                    if y = 125
                    then Some ((digits_val d1 0, if d2 = [] then None else Some (digits_val d2 0)),
                               length d1 + length d2 + 2)
                    else None)
             else None))"

definition is_id_part :: "nat \<Rightarrow> bool" where
  "is_id_part c \<longleftrightarrow> is_letter c \<or> is_digit c \<or> c = 36 \<or> c = 95"

text \<open>
  A group name after its \<open><\<close>, up to and including the \<open>>\<close>, with the number of characters
  it takes.
\<close>

definition group_name :: "jsstring \<Rightarrow> error + (jsstring \<times> nat)" where
  "group_name cs =
     (let nm = takeWhile is_id_part cs in
      case dropWhile is_id_part cs of
        [] \<Rightarrow> Inl SyntaxError
      | x # r \<Rightarrow>
          if x = 62 then
            (if nm = [] \<or> is_digit (hd nm) then Inl SyntaxError else Inr (nm, Suc (length nm)))
          else if x = 92 \<or> 128 \<le> x then Inl Unsupported
          else Inl SyntaxError)"

datatype esc = EChar nat | EClass citem | EAssert regex | EDecimal jsstring | ENameRef jsstring
  | EErr error

text \<open>
  What a backslash means outside a character class, read from the characters after it,
  with the number of these characters that belong to the escape. \<open>n\<close> tells whether the
  pattern has a named group, in which case \<open>\k\<close> must be a named back reference. A \<open>\c\<close>
  that no letter follows is a backslash character, and takes nothing.
\<close>

definition atom_escape :: "bool \<Rightarrow> jsstring \<Rightarrow> esc \<times> nat" where
  "atom_escape n cs =
     (case cs of
        [] \<Rightarrow> (EErr SyntaxError, 0)
      | d # ds \<Rightarrow>
         (case class_escape d of
            Some it \<Rightarrow> (EClass it, 1)
          | None \<Rightarrow>
         (case control_escape d of
            Some v \<Rightarrow> (EChar v, 1)
          | None \<Rightarrow>
            if d = 98 then (EAssert (RWordB False), 1)
            else if d = 66 then (EAssert (RWordB True), 1)
            else if d = 99 then
              (case ds of
                 [] \<Rightarrow> (EChar 92, 0)
               | e # es \<Rightarrow> if is_letter e then (EChar (e mod 32), 2) else (EChar 92, 0))
            else if d = 120 then
              (case hex_n 2 ds of Some v \<Rightarrow> (EChar v, 3) | None \<Rightarrow> (EChar 120, 1))
            else if d = 117 then
              (case hex_n 4 ds of Some v \<Rightarrow> (EChar v, 5) | None \<Rightarrow> (EChar 117, 1))
            else if d = 48 then (EChar (fst (octal_escape cs)), snd (octal_escape cs))
            else if is_digit d then
              (EDecimal (takeWhile is_digit cs), length (takeWhile is_digit cs))
            else if d = 107 \<and> n then
              (case ds of
                 [] \<Rightarrow> (EErr SyntaxError, 0)
               | e # es \<Rightarrow>
                   if e = 60 then
                     (case group_name es of
                        Inl er \<Rightarrow> (EErr er, 0)
                      | Inr (nm, k) \<Rightarrow> (ENameRef nm, k + 2))
                   else (EErr SyntaxError, 0))
            else (EChar d, 1))))"

text \<open>The same inside a character class, where a digit starts a legacy octal escape.\<close>

definition in_class_escape :: "bool \<Rightarrow> jsstring \<Rightarrow> esc \<times> nat" where
  "in_class_escape n cs =
     (case cs of
        [] \<Rightarrow> (EErr SyntaxError, 0)
      | d # ds \<Rightarrow>
         (case class_escape d of
            Some it \<Rightarrow> (EClass it, 1)
          | None \<Rightarrow>
         (case (if d = 98 then Some 8 else control_escape d) of
            Some v \<Rightarrow> (EChar v, 1)
          | None \<Rightarrow>
            if d = 99 then
              (case ds of
                 [] \<Rightarrow> (EChar 92, 0)
               | e # es \<Rightarrow> if is_letter e \<or> is_digit e \<or> e = 95 then (EChar (e mod 32), 2)
                           else (EChar 92, 0))
            else if d = 120 then
              (case hex_n 2 ds of Some v \<Rightarrow> (EChar v, 3) | None \<Rightarrow> (EChar 120, 1))
            else if d = 117 then
              (case hex_n 4 ds of Some v \<Rightarrow> (EChar v, 5) | None \<Rightarrow> (EChar 117, 1))
            else if is_digit d then (EChar (fst (octal_escape cs)), snd (octal_escape cs))
            else if d = 107 \<and> n then (EErr SyntaxError, 0)
            else (EChar d, 1))))"

fun esc_token :: "esc \<Rightarrow> token" where
  "esc_token (EChar v) = TAtom (RChar v)"
| "esc_token (EClass it) = TAtom (RSet False [it])"
| "esc_token (EAssert r) = TAssert r"
| "esc_token (EDecimal ds) = TDecimal ds"
| "esc_token (ENameRef nm) = TNameRef nm"
| "esc_token (EErr e) = TErr e"

fun is_err :: "esc \<Rightarrow> bool" where
  "is_err (EErr e) = True"
| "is_err _ = False"

fun tokenize :: "bool \<Rightarrow> jsstring \<Rightarrow> token list"
  and tok_class :: "bool \<Rightarrow> bool \<Rightarrow> citem list \<Rightarrow> cstate \<Rightarrow> jsstring \<Rightarrow> token list" where
  "tokenize n [] = []"
| "tokenize n (c # cs) =
    (if c = 92 then
       (if is_err (fst (atom_escape n cs)) then [esc_token (fst (atom_escape n cs))]
        else esc_token (fst (atom_escape n cs)) # tokenize n (drop (snd (atom_escape n cs)) cs))
     else if c = 40 then
       (case cs of
          [] \<Rightarrow> [TOpen GCapture]
        | d # ds \<Rightarrow>
            if d = 63 then
              (case ds of
                 [] \<Rightarrow> [TErr SyntaxError]
               | e # es \<Rightarrow>
                   if e = 58 then TOpen GPlain # tokenize n es
                   else if e = 61 then TOpen (GLook False) # tokenize n es
                   else if e = 33 then TOpen (GLook True) # tokenize n es
                   else if e = 60 then
                     (case es of
                        [] \<Rightarrow> [TErr SyntaxError]
                      | f # fs \<Rightarrow>
                          if f = 61 then TOpen (GBehind False) # tokenize n fs
                          else if f = 33 then TOpen (GBehind True) # tokenize n fs
                          else
                            (case group_name es of
                               Inl er \<Rightarrow> [TErr er]
                             | Inr (nm, k) \<Rightarrow> TOpen (GNamed nm) # tokenize n (drop k es)))
                   else [TErr SyntaxError])
            else TOpen GCapture # tokenize n cs)
     else if c = 41 then TClose # tokenize n cs
     else if c = 124 then TBar # tokenize n cs
     else if c = 42 then TQuant 0 None # tokenize n cs
     else if c = 43 then TQuant 1 None # tokenize n cs
     else if c = 63 then TQuest # tokenize n cs
     else if c = 123 then
       (case brace_quant cs of
          None \<Rightarrow> TAtom (RChar 123) # tokenize n cs
        | Some ((mn, mx), k) \<Rightarrow>
            if (case mx of None \<Rightarrow> False | Some m \<Rightarrow> m < mn) then [TErr SyntaxError]
            else TQuant mn mx # tokenize n (drop k cs))
     else if c = 91 then
       (case cs of
          [] \<Rightarrow> [TErr SyntaxError]
        | d # ds \<Rightarrow> if d = 94 then tok_class n True [] CNone ds else tok_class n False [] CNone cs)
     else if c = 46 then TAtom RAny # tokenize n cs
     else if c = 36 then TAssert REol # tokenize n cs
     else if c = 94 then TAssert RBol # tokenize n cs
     else TAtom (RChar c) # tokenize n cs)"
| "tok_class n neg acc st [] = [TErr SyntaxError]"
| "tok_class n neg acc st (c # cs) =
    (if c = 93 then TAtom (RSet neg (rev (flush st acc))) # tokenize n cs
     else if c = 92 then
       (case fst (in_class_escape n cs) of
          EClass it \<Rightarrow> tok_class n neg (it # flush st acc) CNone (drop (snd (in_class_escape n cs)) cs)
        | EChar v \<Rightarrow>
            (case add_char st acc v of
               None \<Rightarrow> [TErr SyntaxError]
             | Some (st', acc') \<Rightarrow> tok_class n neg acc' st' (drop (snd (in_class_escape n cs)) cs))
        | EErr e \<Rightarrow> [TErr e]
        | _ \<Rightarrow> [TErr SyntaxError])
     else if c = 45 then
       (case st of
          CAfter lo \<Rightarrow> tok_class n neg acc (CDash lo) cs
        | _ \<Rightarrow>
          (case add_char st acc c of
             None \<Rightarrow> [TErr SyntaxError]
           | Some (st', acc') \<Rightarrow> tok_class n neg acc' st' cs))
     else
       (case add_char st acc c of
          None \<Rightarrow> [TErr SyntaxError]
        | Some (st', acc') \<Rightarrow> tok_class n neg acc' st' cs))"

subsection \<open>Groups, names and decimal escapes\<close>

fun open_name :: "token \<Rightarrow> jsstring option option" where
  "open_name (TOpen GCapture) = Some None"
| "open_name (TOpen (GNamed nm)) = Some (Some nm)"
| "open_name _ = None"

text \<open>The capturing groups of the pattern in the order of their left parentheses.\<close>

definition group_names :: "token list \<Rightarrow> jsstring option list" where
  "group_names ts = List.map_filter open_name ts"

definition has_names :: "token list \<Rightarrow> bool" where
  "has_names ts = list_ex (\<lambda>g. g \<noteq> None) (group_names ts)"

fun find_name :: "jsstring \<Rightarrow> jsstring option list \<Rightarrow> nat \<Rightarrow> nat option" where
  "find_name nm [] i = None"
| "find_name nm (g # gs) i = (if g = Some nm then Some (Suc i) else find_name nm gs (Suc i))"

fun resolve :: "jsstring option list \<Rightarrow> token \<Rightarrow> token list" where
  "resolve gs (TDecimal ds) =
     (if digits_val ds 0 \<le> length gs then [TAtom (RBackref (digits_val ds 0))]
      else TAtom (RChar (fst (octal_escape ds)))
             # map (\<lambda>d. TAtom (RChar d)) (drop (snd (octal_escape ds)) ds))"
| "resolve gs (TNameRef nm) =
     (case find_name nm gs 0 of None \<Rightarrow> [TErr SyntaxError] | Some i \<Rightarrow> [TAtom (RBackref i)])"
| "resolve gs t = [t]"

subsection \<open>Building the pattern\<close>

fun mk_seq :: "regex list \<Rightarrow> regex" where
  "mk_seq [] = REmpty"
| "mk_seq [r] = r"
| "mk_seq (r # rs) = RSeq r (mk_seq rs)"

fun mk_alt :: "regex list \<Rightarrow> regex" where
  "mk_alt [] = REmpty"
| "mk_alt [r] = r"
| "mk_alt (r # rs) = RAlt r (mk_alt rs)"

datatype qstate = QNone | QAtom | QQuant

record frame =
  f_kind :: gkind
  f_index :: nat
  f_alts :: "regex list"
  f_seq :: "regex list"

record pstate =
  frames :: "frame list"
  qs :: qstate
  ngroups :: nat

definition close_frame :: "frame \<Rightarrow> regex" where
  "close_frame f =
     (let body = mk_alt (rev (mk_seq (rev (f_seq f)) # f_alts f))
      in case f_kind f of
           GCapture \<Rightarrow> RGroup (f_index f) body
         | GNamed nm \<Rightarrow> RGroup (f_index f) body
         | GPlain \<Rightarrow> body
         | GLook neg \<Rightarrow> RLook neg body
         | GBehind neg \<Rightarrow> RBehind neg body)"

fun captures_group :: "gkind \<Rightarrow> bool" where
  "captures_group GCapture = True"
| "captures_group (GNamed nm) = True"
| "captures_group _ = False"

text \<open>A lookahead may be followed by a quantifier (Annex B), a lookbehind may not.\<close>

fun after_close :: "gkind \<Rightarrow> qstate" where
  "after_close (GBehind neg) = QNone"
| "after_close _ = QAtom"

definition push_term :: "regex \<Rightarrow> qstate \<Rightarrow> pstate \<Rightarrow> error + pstate" where
  "push_term r q st =
     (case frames st of
        [] \<Rightarrow> Inl SyntaxError
      | f # fs \<Rightarrow> Inr (st\<lparr>frames := f\<lparr>f_seq := r # f_seq f\<rparr> # fs, qs := q\<rparr>))"

fun pstep :: "token \<Rightarrow> pstate \<Rightarrow> error + pstate" where
  "pstep (TErr e) st = Inl e"
| "pstep (TAtom r) st = push_term r QAtom st"
| "pstep (TAssert r) st = push_term r QNone st"
| "pstep (TOpen k) st =
     (let n = (if captures_group k then Suc (ngroups st) else ngroups st)
      in Inr (st\<lparr>frames := \<lparr>f_kind = k, f_index = n, f_alts = [], f_seq = []\<rparr> # frames st,
                  qs := QNone, ngroups := n\<rparr>))"
| "pstep TClose st =
     (case frames st of
        f # g # fs \<Rightarrow> push_term (close_frame f) (after_close (f_kind f)) (st\<lparr>frames := g # fs\<rparr>)
      | _ \<Rightarrow> Inl SyntaxError)"
| "pstep TBar st =
     (case frames st of
        [] \<Rightarrow> Inl SyntaxError
      | f # fs \<Rightarrow> Inr (st\<lparr>frames := f\<lparr>f_alts := mk_seq (rev (f_seq f)) # f_alts f, f_seq := []\<rparr> # fs,
                         qs := QNone\<rparr>))"
| "pstep (TQuant mn mx) st =
     (case frames st of
        [] \<Rightarrow> Inl SyntaxError
      | f # fs \<Rightarrow>
         (case f_seq f of
            [] \<Rightarrow> Inl SyntaxError
          | r # rs \<Rightarrow>
             (case qs st of
                QAtom \<Rightarrow> Inr (st\<lparr>frames := f\<lparr>f_seq := RRep r mn mx True # rs\<rparr> # fs, qs := QQuant\<rparr>)
              | _ \<Rightarrow> Inl SyntaxError)))"
| "pstep TQuest st =
     (case frames st of
        [] \<Rightarrow> Inl SyntaxError
      | f # fs \<Rightarrow>
         (case f_seq f of
            [] \<Rightarrow> Inl SyntaxError
          | r # rs \<Rightarrow>
             (case qs st of
                QNone \<Rightarrow> Inl SyntaxError
              | QAtom \<Rightarrow> Inr (st\<lparr>frames := f\<lparr>f_seq := RRep r 0 (Some 1) True # rs\<rparr> # fs, qs := QQuant\<rparr>)
              | QQuant \<Rightarrow>
                 (case r of
                    RRep r' mn' mx' g \<Rightarrow>
                      Inr (st\<lparr>frames := f\<lparr>f_seq := RRep r' mn' mx' False # rs\<rparr> # fs, qs := QNone\<rparr>)
                  | _ \<Rightarrow> Inl SyntaxError))))"
| "pstep (TDecimal ds) st = Inl SyntaxError"
| "pstep (TNameRef nm) st = Inl SyntaxError"

fun psteps :: "token list \<Rightarrow> pstate \<Rightarrow> error + pstate" where
  "psteps [] st = Inr st"
| "psteps (t # ts) st = (case pstep t st of Inl e \<Rightarrow> Inl e | Inr st' \<Rightarrow> psteps ts st')"

record regexp_prog =
  prog :: regex
  groups :: nat

definition pstart :: pstate where
  "pstart = \<lparr>frames = [\<lparr>f_kind = GPlain, f_index = 0, f_alts = [], f_seq = []\<rparr>], qs = QNone, ngroups = 0\<rparr>"

definition pfinish :: "pstate \<Rightarrow> error + regexp_prog" where
  "pfinish st =
     (case frames st of
        [f] \<Rightarrow> Inr \<lparr>prog = close_frame f, groups = ngroups st\<rparr>
      | _ \<Rightarrow> Inl SyntaxError)"

text \<open>
  The pattern is read without named back references first and, when it turns out to have
  a named group, once more with them. Two groups of the same name are an error.
\<close>

definition pattern_tokens :: "jsstring \<Rightarrow> token list" where
  "pattern_tokens src =
     (if has_names (tokenize False src) then tokenize True src else tokenize False src)"

definition named_groups :: "token list \<Rightarrow> jsstring option list" where
  "named_groups ts = filter (\<lambda>g. g \<noteq> None) (group_names ts)"

definition compile :: "jsstring \<Rightarrow> error + regexp_prog" where
  "compile src =
     (let ts = pattern_tokens src in
      case psteps (concat (map (resolve (group_names ts)) ts)) pstart of
        Inl e \<Rightarrow> Inl e
      | Inr st \<Rightarrow>
          if distinct (named_groups ts) then pfinish st else Inl SyntaxError)"

subsection \<open>Matching\<close>

text \<open>
  The backtracking matcher of ECMAScript, in continuation-passing style. A state is the
  input still to be read and the captures; the whole input \<open>t\<close> is at hand for what looks
  to the left of the position: \<open>^\<close>, \<open>\b\<close> and lookbehind, whose pattern is matched
  backwards.
\<close>

type_synonym captures = "jsstring option list"
type_synonym mstate = "jsstring \<times> captures"

datatype dir = Fwd | Bwd

fun group_ids :: "regex \<Rightarrow> nat list" where
  "group_ids (RGroup n r) = n # group_ids r"
| "group_ids (RSeq a b) = group_ids a @ group_ids b"
| "group_ids (RAlt a b) = group_ids a @ group_ids b"
| "group_ids (RRep r mn mx g) = group_ids r"
| "group_ids (RLook neg r) = group_ids r"
| "group_ids (RBehind neg r) = group_ids r"
| "group_ids _ = []"

fun clear_caps :: "nat list \<Rightarrow> captures \<Rightarrow> captures" where
  "clear_caps [] cs = cs"
| "clear_caps (n # ns) cs = clear_caps ns (cs[n := None])"

fun rsize :: "regex \<Rightarrow> nat" where
  "rsize (RSeq a b) = Suc (rsize a + rsize b)"
| "rsize (RAlt a b) = Suc (rsize a + rsize b)"
| "rsize (RRep r mn mx g) = Suc (rsize r)"
| "rsize (RGroup n r) = Suc (rsize r)"
| "rsize (RLook neg r) = Suc (rsize r)"
| "rsize (RBehind neg r) = Suc (rsize r)"
| "rsize _ = 0"

definition dec_max :: "nat option \<Rightarrow> nat option" where
  "dec_max mx = (case mx of None \<Rightarrow> None | Some n \<Rightarrow> Some (n - 1))"

text \<open>The position of a state in the input, and the input left in the direction of the match.\<close>

definition pos :: "jsstring \<Rightarrow> mstate \<Rightarrow> nat" where
  "pos t s = length t - length (fst s)"

fun remaining :: "jsstring \<Rightarrow> dir \<Rightarrow> mstate \<Rightarrow> nat" where
  "remaining t Fwd s = length (fst s)"
| "remaining t Bwd s = pos t s"

text \<open>The character to the left of the position, and the input from that character on.\<close>

definition left_of :: "jsstring \<Rightarrow> mstate \<Rightarrow> (nat \<times> jsstring) option" where
  "left_of t s = (if pos t s = 0 then None else Some (t ! (pos t s - 1), drop (pos t s - 1) t))"

definition word_left :: "jsstring \<Rightarrow> mstate \<Rightarrow> bool" where
  "word_left t s = (case left_of t s of None \<Rightarrow> False | Some (x, inp) \<Rightarrow> is_word x)"

definition word_right :: "mstate \<Rightarrow> bool" where
  "word_right s = (case fst s of [] \<Rightarrow> False | x # xs \<Rightarrow> is_word x)"

function rmatch :: "jsstring \<Rightarrow> regex \<Rightarrow> dir \<Rightarrow> mstate \<Rightarrow> (mstate \<Rightarrow> mstate option) \<Rightarrow> mstate option" where
  "rmatch t REmpty d s k = k s"
| "rmatch t (RChar c) Fwd s k =
     (case fst s of [] \<Rightarrow> None | x # xs \<Rightarrow> if x = c then k (xs, snd s) else None)"
| "rmatch t RAny Fwd s k =
     (case fst s of [] \<Rightarrow> None | x # xs \<Rightarrow> if is_line_terminator x then None else k (xs, snd s))"
| "rmatch t (RSet neg items) Fwd s k =
     (case fst s of [] \<Rightarrow> None | x # xs \<Rightarrow> if in_items items x \<noteq> neg then k (xs, snd s) else None)"
| "rmatch t REol d s k = (if fst s = [] then k s else None)"
| "rmatch t (RSeq a b) Fwd s k = rmatch t a Fwd s (\<lambda>s'. rmatch t b Fwd s' k)"
| "rmatch t (RAlt a b) d s k = (case rmatch t a d s k of Some z \<Rightarrow> Some z | None \<Rightarrow> rmatch t b d s k)"
| "rmatch t (RGroup n r) Fwd s k =
     rmatch t r Fwd s
       (\<lambda>s'. k (fst s', (snd s')[n := Some (take (length (fst s) - length (fst s')) (fst s))]))"
| "rmatch t (RLook neg r) d s k =
     (case rmatch t r Fwd s Some of
        None \<Rightarrow> if neg then k s else None
      | Some s' \<Rightarrow> if neg then None else k (fst s, snd s'))"
| "rmatch t (RBackref n) Fwd s k =
     (case (if n < length (snd s) then snd s ! n else None) of
        None \<Rightarrow> k s
      | Some w \<Rightarrow> if take (length w) (fst s) = w then k (drop (length w) (fst s), snd s) else None)"
| "rmatch t (RRep r mn mx g) d s k =
     (if mx = Some 0 then k s
      else if mn \<noteq> 0 then
        rmatch t r d (fst s, clear_caps (group_ids r) (snd s))
          (\<lambda>s'. rmatch t (RRep r (mn - 1) (dec_max mx) g) d s' k)
      else if g then
        (case rmatch t r d (fst s, clear_caps (group_ids r) (snd s))
                (\<lambda>s'. if remaining t d s \<le> remaining t d s' then None
                       else rmatch t (RRep r 0 (dec_max mx) g) d s' k) of
           Some z \<Rightarrow> Some z
         | None \<Rightarrow> k s)
      else
        (case k s of
           Some z \<Rightarrow> Some z
         | None \<Rightarrow>
            rmatch t r d (fst s, clear_caps (group_ids r) (snd s))
              (\<lambda>s'. if remaining t d s \<le> remaining t d s' then None
                     else rmatch t (RRep r 0 (dec_max mx) g) d s' k)))"
| "rmatch t RBol d s k = (if pos t s = 0 then k s else None)"
| "rmatch t (RWordB neg) d s k = (if (word_left t s \<noteq> word_right s) \<noteq> neg then k s else None)"
| "rmatch t (RBehind neg r) d s k =
     (case rmatch t r Bwd s Some of
        None \<Rightarrow> if neg then k s else None
      | Some s' \<Rightarrow> if neg then None else k (fst s, snd s'))"
| "rmatch t (RChar c) Bwd s k =
     (case left_of t s of
        None \<Rightarrow> None
      | Some (x, inp) \<Rightarrow> if x = c then k (inp, snd s) else None)"
| "rmatch t RAny Bwd s k =
     (case left_of t s of
        None \<Rightarrow> None
      | Some (x, inp) \<Rightarrow> if is_line_terminator x then None else k (inp, snd s))"
| "rmatch t (RSet neg items) Bwd s k =
     (case left_of t s of
        None \<Rightarrow> None
      | Some (x, inp) \<Rightarrow> if in_items items x \<noteq> neg then k (inp, snd s) else None)"
| "rmatch t (RSeq a b) Bwd s k = rmatch t b Bwd s (\<lambda>s'. rmatch t a Bwd s' k)"
| "rmatch t (RGroup n r) Bwd s k =
     rmatch t r Bwd s
       (\<lambda>s'. k (fst s', (snd s')[n := Some (take (length (fst s') - length (fst s)) (fst s'))]))"
| "rmatch t (RBackref n) Bwd s k =
     (case (if n < length (snd s) then snd s ! n else None) of
        None \<Rightarrow> k s
      | Some w \<Rightarrow>
          if length w \<le> pos t s \<and> take (length w) (drop (pos t s - length w) t) = w
          then k (drop (pos t s - length w) t, snd s) else None)"
  by pat_completeness auto
termination
  by (relation "measures [\<lambda>(t, r, d, s, k). rsize r,
                          \<lambda>(t, r, d, s, k). case r of RRep _ mn _ _ \<Rightarrow> mn | _ \<Rightarrow> 0,
                          \<lambda>(t, r, d, s, k). remaining t d s]") auto

lemmas rmatch_rep = rmatch.simps(11)
declare rmatch.simps(11) [simp del]

record match_result =
  m_index :: nat
  m_groups :: captures
  m_end :: nat

text \<open>
  The search for the first match at or after position \<open>i\<close>; \<open>inp\<close> is the input from \<open>i\<close> on.
\<close>

fun scan :: "regexp_prog \<Rightarrow> jsstring \<Rightarrow> nat \<Rightarrow> jsstring \<Rightarrow> match_result option" where
  "scan re t i inp =
     (case rmatch t (prog re) Fwd (inp, replicate (Suc (groups re)) None) Some of
        Some s' \<Rightarrow>
          Some \<lparr>m_index = i,
                m_groups = (snd s')[0 := Some (take (length inp - length (fst s')) inp)],
                m_end = i + (length inp - length (fst s'))\<rparr>
      | None \<Rightarrow> (case inp of [] \<Rightarrow> None | x # xs \<Rightarrow> scan re t (Suc i) xs))"

subsection \<open>Every successful match ends where its continuation was called\<close>

text \<open>
  The matcher only moves in its direction: a successful run of \<open>rmatch t r d s k\<close> hands \<open>k\<close>
  a state that has no more input left in the direction \<open>d\<close> than \<open>s\<close>, and strictly less
  when the pattern cannot match the empty string. This is what makes the scanning loops of
  the source terminate.
\<close>

fun nullable :: "regex \<Rightarrow> bool" where
  "nullable (RChar c) = False"
| "nullable RAny = False"
| "nullable (RSet neg items) = False"
| "nullable (RSeq a b) = (nullable a \<and> nullable b)"
| "nullable (RAlt a b) = (nullable a \<or> nullable b)"
| "nullable (RRep r mn mx g) = (mn = 0 \<or> mx = Some 0 \<or> nullable r)"
| "nullable (RGroup n r) = nullable r"
| "nullable _ = True"

definition reach :: "jsstring \<Rightarrow> regex \<Rightarrow> dir \<Rightarrow> mstate \<Rightarrow> mstate \<Rightarrow> bool" where
  "reach t r d s s' \<longleftrightarrow> remaining t d s' \<le> remaining t d s \<and>
      (nullable r \<or> remaining t d s' < remaining t d s) \<and> length (snd s') = length (snd s)"

lemma length_clear_caps [simp]: "length (clear_caps ns cs) = length cs"
  by (induction ns arbitrary: cs) simp_all

lemma remaining_caps [simp]: "remaining t d (fst s, cs) = remaining t d s"
  by (cases d) (simp_all add: pos_def)

lemma left_of_remaining:
  "left_of t s = Some (x, inp) \<Longrightarrow> remaining t Bwd (inp, cs) < remaining t Bwd s"
  by (auto simp: left_of_def pos_def split: if_splits)

lemma rmatch_rep_reach:
  assumes IH: "\<And>d s k z. rmatch t r d s k = Some z \<Longrightarrow> \<exists>s'. k s' = Some z \<and> reach t r d s s'"
  shows "rmatch t (RRep r mn mx g) d s k = Some z \<Longrightarrow>
           \<exists>s'. k s' = Some z \<and> reach t (RRep r mn mx g) d s s'"
proof (induction "mn + remaining t d s" arbitrary: mn mx s rule: less_induct)
  case less
  let ?xr = "(fst s, clear_caps (group_ids r) (snd s))"
  let ?d = "\<lambda>s'. if remaining t d s \<le> remaining t d s' then None
                  else rmatch t (RRep r 0 (dec_max mx) g) d s' k"
  show ?case
  proof (cases "mx = Some 0")
    case True
    with less.prems have "k s = Some z" by (simp add: rmatch_rep)
    then show ?thesis using True by (intro exI[of _ s]) (simp add: reach_def)
  next
    case nz: False
    show ?thesis
    proof (cases "mn = 0")
      case False
      with nz less.prems have "rmatch t r d ?xr (\<lambda>s'. rmatch t (RRep r (mn - 1) (dec_max mx) g) d s' k) = Some z"
        by (subst (asm) rmatch_rep) simp
      from IH[OF this] obtain s1 where s1: "rmatch t (RRep r (mn - 1) (dec_max mx) g) d s1 k = Some z"
        "reach t r d ?xr s1" by blast
      have "mn - 1 + remaining t d s1 < mn + remaining t d s"
        using s1(2) False by (auto simp: reach_def)
      from less.hyps[OF this s1(1)] obtain s2 where "k s2 = Some z"
        "reach t (RRep r (mn - 1) (dec_max mx) g) d s1 s2" by blast
      then show ?thesis using s1(2) by (intro exI[of _ s2]) (auto simp: reach_def)
    next
      case True
      have step: "rmatch t r d ?xr ?d = Some z \<Longrightarrow> ?thesis"
      proof -
        assume "rmatch t r d ?xr ?d = Some z"
        from IH[OF this] obtain s1 where s1: "?d s1 = Some z" "reach t r d ?xr s1" by blast
        then have lt: "remaining t d s1 < remaining t d s" and
          r1: "rmatch t (RRep r 0 (dec_max mx) g) d s1 k = Some z"
          by (auto split: if_splits)
        have "0 + remaining t d s1 < mn + remaining t d s" using lt by simp
        from less.hyps[OF this r1] obtain s2 where "k s2 = Some z"
          "reach t (RRep r 0 (dec_max mx) g) d s1 s2" by blast
        then show ?thesis using lt True s1(2) by (intro exI[of _ s2]) (auto simp: reach_def)
      qed
      have stop: "k s = Some z \<Longrightarrow> ?thesis"
        using True by (intro exI[of _ s]) (simp add: reach_def)
      from less.prems have "(if g then (case rmatch t r d ?xr ?d of Some z \<Rightarrow> Some z | None \<Rightarrow> k s)
          else (case k s of Some z \<Rightarrow> Some z | None \<Rightarrow> rmatch t r d ?xr ?d)) = Some z"
        using nz True by (subst (asm) rmatch_rep) simp
      then have "rmatch t r d ?xr ?d = Some z \<or> k s = Some z"
        by (cases g; cases "rmatch t r d ?xr ?d"; cases "k s") simp_all
      then show ?thesis using step stop by blast
    qed
  qed
qed

lemma reach_char:
  assumes "rmatch t r d s k = Some z" "r = RChar c \<or> r = RAny \<or> r = RSet neg items"
  shows "\<exists>s'. k s' = Some z \<and> reach t r d s s'"
proof (cases d)
  case Fwd
  with assms obtain x xs where "fst s = x # xs" "k (xs, snd s) = Some z"
    by (cases "fst s") (auto split: if_splits)
  then show ?thesis using Fwd assms(2) by (intro exI[of _ "(xs, snd s)"]) (auto simp: reach_def)
next
  case Bwd
  with assms obtain x inp where l: "left_of t s = Some (x, inp)" and "k (inp, snd s) = Some z"
    by (cases "left_of t s") (auto split: if_splits)
  then show ?thesis using Bwd assms(2) left_of_remaining[OF l, of "snd s"]
    by (intro exI[of _ "(inp, snd s)"]) (auto simp: reach_def)
qed

lemma rmatch_reach:
  "rmatch t r d s k = Some z \<Longrightarrow> \<exists>s'. k s' = Some z \<and> reach t r d s s'"
proof (induction r arbitrary: d s k z)
  case (RSeq a b)
  show ?case
  proof (cases d)
    case Fwd
    with RSeq.prems have "rmatch t a d s (\<lambda>s'. rmatch t b d s' k) = Some z" by simp
    from RSeq.IH(1)[OF this] obtain s1 where s1: "rmatch t b d s1 k = Some z" "reach t a d s s1"
      by blast
    from RSeq.IH(2)[OF s1(1)] obtain s2 where "k s2 = Some z" "reach t b d s1 s2" by blast
    then show ?thesis using s1(2) by (intro exI[of _ s2]) (auto simp: reach_def)
  next
    case Bwd
    with RSeq.prems have "rmatch t b d s (\<lambda>s'. rmatch t a d s' k) = Some z" by simp
    from RSeq.IH(2)[OF this] obtain s1 where s1: "rmatch t a d s1 k = Some z" "reach t b d s s1"
      by blast
    from RSeq.IH(1)[OF s1(1)] obtain s2 where "k s2 = Some z" "reach t a d s1 s2" by blast
    then show ?thesis using s1(2) by (intro exI[of _ s2]) (auto simp: reach_def)
  qed
next
  case (RAlt a b)
  show ?case
  proof (cases "rmatch t a d s k")
    case None
    with RAlt.prems have "rmatch t b d s k = Some z" by simp
    from RAlt.IH(2)[OF this] show ?thesis by (auto simp: reach_def)
  next
    case (Some y)
    with RAlt.prems have "rmatch t a d s k = Some z" by simp
    from RAlt.IH(1)[OF this] show ?thesis by (auto simp: reach_def)
  qed
next
  case (RRep r mn mx g)
  show ?case by (rule rmatch_rep_reach[OF RRep.IH RRep.prems])
next
  case (RGroup n r)
  show ?case
  proof (cases d)
    case Fwd
    let ?c = "\<lambda>s'. (fst s', (snd s')[n := Some (take (length (fst s) - length (fst s')) (fst s))])"
    from RGroup.prems Fwd have "rmatch t r d s (\<lambda>s'. k (?c s')) = Some z" by simp
    from RGroup.IH[OF this] obtain s1 where s1: "k (?c s1) = Some z" "reach t r d s s1" by blast
    show ?thesis by (rule exI[of _ "?c s1"]) (use s1 in \<open>simp add: reach_def\<close>)
  next
    case Bwd
    let ?c = "\<lambda>s'. (fst s', (snd s')[n := Some (take (length (fst s') - length (fst s)) (fst s'))])"
    from RGroup.prems Bwd have "rmatch t r d s (\<lambda>s'. k (?c s')) = Some z" by simp
    from RGroup.IH[OF this] obtain s1 where s1: "k (?c s1) = Some z" "reach t r d s s1" by blast
    show ?thesis by (rule exI[of _ "?c s1"]) (use s1 in \<open>simp add: reach_def\<close>)
  qed
next
  case (RLook neg r)
  show ?case
  proof (cases "rmatch t r Fwd s Some")
    case None
    with RLook.prems have "k s = Some z" by (simp split: if_splits)
    then show ?thesis by (intro exI[of _ s]) (simp add: reach_def)
  next
    case (Some y)
    from RLook.IH[OF Some] have "length (snd y) = length (snd s)" by (simp add: reach_def)
    moreover from Some RLook.prems have "k (fst s, snd y) = Some z" by (simp split: if_splits)
    ultimately show ?thesis by (intro exI[of _ "(fst s, snd y)"]) (simp add: reach_def)
  qed
next
  case (RBehind neg r)
  show ?case
  proof (cases "rmatch t r Bwd s Some")
    case None
    with RBehind.prems have "k s = Some z" by (simp split: if_splits)
    then show ?thesis by (intro exI[of _ s]) (simp add: reach_def)
  next
    case (Some y)
    from RBehind.IH[OF Some] have "length (snd y) = length (snd s)" by (simp add: reach_def)
    moreover from Some RBehind.prems have "k (fst s, snd y) = Some z" by (simp split: if_splits)
    ultimately show ?thesis by (intro exI[of _ "(fst s, snd y)"]) (simp add: reach_def)
  qed
next
  case (RBackref n)
  show ?case
  proof (cases "if n < length (snd s) then snd s ! n else None")
    case None
    with RBackref.prems have "k s = Some z" by (cases d) simp_all
    then show ?thesis by (intro exI[of _ s]) (simp add: reach_def)
  next
    case (Some w)
    show ?thesis
    proof (cases d)
      case Fwd
      with Some RBackref.prems have "k (drop (length w) (fst s), snd s) = Some z"
        by (simp split: if_splits)
      then show ?thesis using Fwd
        by (intro exI[of _ "(drop (length w) (fst s), snd s)"]) (simp add: reach_def)
    next
      case Bwd
      with Some RBackref.prems have "k (drop (pos t s - length w) t, snd s) = Some z"
        by (simp split: if_splits)
      then show ?thesis using Bwd
        by (intro exI[of _ "(drop (pos t s - length w) t, snd s)"]) (auto simp: reach_def pos_def)
    qed
  qed
next
  case REmpty
  then have "k s = Some z" by simp
  then show ?case by (intro exI[of _ s]) (simp add: reach_def)
next
  case (RChar c)
  then show ?case using reach_char by blast
next
  case RAny
  then show ?case using reach_char by blast
next
  case (RSet neg items)
  then show ?case using reach_char by blast
next
  case REol
  then have "k s = Some z" by (simp split: if_splits)
  then show ?case by (intro exI[of _ s]) (simp add: reach_def)
next
  case RBol
  then have "k s = Some z" by (simp split: if_splits)
  then show ?case by (intro exI[of _ s]) (simp add: reach_def)
next
  case (RWordB neg)
  then have "k s = Some z" by (simp split: if_splits)
  then show ?case by (intro exI[of _ s]) (simp add: reach_def)
qed

definition exec_at :: "regexp_prog \<Rightarrow> jsstring \<Rightarrow> nat \<Rightarrow> match_result option" where
  "exec_at re text i = (if length text < i then None else scan re text i (drop i text))"

definition truthy :: "jsstring option \<Rightarrow> bool" where
  "truthy g \<longleftrightarrow> (case g of None \<Rightarrow> False | Some s \<Rightarrow> s \<noteq> [])"

definition grp :: "match_result \<Rightarrow> nat \<Rightarrow> jsstring option" where
  "grp mt n = (if n < length (m_groups mt) then m_groups mt ! n else None)"

definition str_of :: "jsstring option \<Rightarrow> jsstring" where
  "str_of g = (case g of None \<Rightarrow> js ''undefined'' | Some s \<Rightarrow> s)"

section \<open>JavaScript values and plain objects\<close>

datatype jsval = VUndef | VStr jsstring | VArr "jsval list" | VObj "(jsstring \<times> jsval) list"

fun join_with :: "jsstring \<Rightarrow> jsstring list \<Rightarrow> jsstring" where
  "join_with sep [] = []"
| "join_with sep [x] = x"
| "join_with sep (x # xs) = x @ sep @ join_with sep xs"

fun to_str :: "jsval \<Rightarrow> jsstring" where
  "to_str VUndef = js ''undefined''"
| "to_str (VStr s) = s"
| "to_str (VArr xs) = join_with (js '','') (map (\<lambda>v. if v = VUndef then [] else to_str v) xs)"
| "to_str (VObj ps) = js ''[object Object]''"

definition val_of :: "jsstring option \<Rightarrow> jsval" where
  "val_of g = (case g of None \<Rightarrow> VUndef | Some s \<Rightarrow> VStr s)"


definition array_index :: "jsstring \<Rightarrow> nat option" where
  "array_index k =
     (if k = [] \<or> \<not> list_all is_digit k then None
      else if hd k = 48 \<and> k \<noteq> [48] then None
      else if digits_val k 0 < 4294967295 then Some (digits_val k 0) else None)"

fun obj_has :: "(jsstring \<times> jsval) list \<Rightarrow> jsstring \<Rightarrow> bool" where
  "obj_has [] k = False"
| "obj_has ((k', v) # ps) k = (k' = k \<or> obj_has ps k)"

fun obj_update :: "jsstring \<Rightarrow> jsval \<Rightarrow> (jsstring \<times> jsval) list \<Rightarrow> (jsstring \<times> jsval) list" where
  "obj_update k v [] = []"
| "obj_update k v ((k', v') # ps) = (if k' = k then (k, v) # ps else (k', v') # obj_update k v ps)"

fun obj_insert_index :: "nat \<Rightarrow> jsstring \<Rightarrow> jsval \<Rightarrow> (jsstring \<times> jsval) list \<Rightarrow> (jsstring \<times> jsval) list" where
  "obj_insert_index i k v [] = [(k, v)]"
| "obj_insert_index i k v ((k', v') # ps) =
     (case array_index k' of
        Some j \<Rightarrow> if j < i then (k', v') # obj_insert_index i k v ps else (k, v) # (k', v') # ps
      | None \<Rightarrow> (k, v) # (k', v') # ps)"

definition obj_set :: "jsstring \<Rightarrow> jsval \<Rightarrow> (jsstring \<times> jsval) list \<Rightarrow> (jsstring \<times> jsval) list" where
  "obj_set k v ps =
     (if k = js ''__proto__'' then ps
      else if obj_has ps k then obj_update k v ps
      else case array_index k of
             Some i \<Rightarrow> obj_insert_index i k v ps
           | None \<Rightarrow> ps @ [(k, v)])"

definition arr_set :: "nat \<Rightarrow> jsval \<Rightarrow> jsval list \<Rightarrow> jsval list" where
  "arr_set i v xs =
     (if i < length xs then xs[i := v] else xs @ replicate (i - length xs) VUndef @ [v])"

definition toLowerCase :: "jsstring \<Rightarrow> jsstring" where
  "toLowerCase s = map (\<lambda>c. if 65 \<le> c \<and> c \<le> 90 then c + 32 else c) s"

section \<open>The two patterns of the source\<close>

definition regexp_src :: "jsstring \<Rightarrow> jsstring" where
  "regexp_src tag = pat ''%[(%[?)('' @ tag @ pat '')(?![%w-])([^%]%/]*(?:%/(?!%])[^%]%/]*)*?)(?:(%/)%]|%](?:([^%[]*(?:%[(?!%/%2%])[^%[]*)*)(%[%/%2%]))?)(%]?)''"

definition attrs_src :: jsstring where
  "attrs_src = pat ''(%w+)%s*=%s*\"([^\"]*)\"(?:%s|$)|(%w+)%s*=%s*%'([^%']*)%'(?:%s|$)|(%w+)%s*=%s*([^%s%'\"]+)(?:%s|$)|\"([^\"]*)\"(?:%s|$)|(%S+)(?:%s|$)''"

lemma scan_bounds:
  "scan re t i inp = Some mt \<Longrightarrow>
     i \<le> m_index mt \<and> m_index mt \<le> m_end mt \<and> m_end mt \<le> i + length inp \<and>
     (\<not> nullable (prog re) \<longrightarrow> m_index mt < m_end mt)"
proof (induction re t i inp rule: scan.induct)
  case (1 re t i inp)
  show ?case
  proof (cases "rmatch t (prog re) Fwd (inp, replicate (Suc (groups re)) None) Some")
    case None
    with "1.prems" obtain x xs where inp: "inp = x # xs" and sc: "scan re t (Suc i) xs = Some mt"
      by (cases inp) simp_all
    from "1.IH"[OF None inp sc] inp show ?thesis by simp
  next
    case (Some s')
    from rmatch_reach[OF Some] have "reach t (prog re) Fwd (inp, replicate (Suc (groups re)) None) s'"
      by simp
    moreover from "1.prems" Some have
      "mt = \<lparr>m_index = i,
             m_groups = (snd s')[0 := Some (take (length inp - length (fst s')) inp)],
             m_end = i + (length inp - length (fst s'))\<rparr>" by simp
    ultimately show ?thesis by (auto simp: reach_def)
  qed
qed

lemma exec_at_bounds:
  "exec_at re text i = Some mt \<Longrightarrow>
     i \<le> m_index mt \<and> m_index mt \<le> m_end mt \<and> m_end mt \<le> length text \<and>
     (\<not> nullable (prog re) \<longrightarrow> m_index mt < m_end mt)"
  using scan_bounds[of re "text" i "drop i text" mt]
  by (auto simp: exec_at_def split: if_splits)

definition attrs_pattern :: regexp_prog where
  "attrs_pattern = (case compile attrs_src of Inr re \<Rightarrow> re | Inl e \<Rightarrow> \<lparr>prog = REmpty, groups = 0\<rparr>)"


definition rep_star :: "regex \<Rightarrow> regex" where
  "rep_star r = RRep r 0 None True"

definition rep_plus :: "regex \<Rightarrow> regex" where
  "rep_plus r = RRep r 1 None True"

definition rx_space :: regex where
  "rx_space = RSet False [CClass False ClsS]"

definition rx_word :: regex where
  "rx_word = RSet False [CClass False ClsW]"

definition rx_end :: regex where
  "rx_end = RAlt rx_space REol"

definition rx_assign :: "nat \<Rightarrow> regex \<Rightarrow> regex" where
  "rx_assign n v =
     RSeq (RGroup n (rep_plus rx_word))
       (RSeq (rep_star rx_space) (RSeq (RChar 61) (RSeq (rep_star rx_space) v)))"

definition rx_quoted :: "nat \<Rightarrow> nat \<Rightarrow> regex" where
  "rx_quoted q n =
     RSeq (RChar q) (RSeq (RGroup n (rep_star (RSet True [CRange q q]))) (RSeq (RChar q) rx_end))"

definition attrs_ast :: regex where
  "attrs_ast =
     RAlt (rx_assign 1 (rx_quoted 34 2))
       (RAlt (rx_assign 3 (rx_quoted 39 4))
         (RAlt (rx_assign 5
                  (RSeq (RGroup 6 (rep_plus (RSet True [CClass False ClsS, CRange 39 39, CRange 34 34])))
                     rx_end))
           (RAlt (rx_quoted 34 7)
              (RSeq (RGroup 8 (rep_plus (RSet False [CClass True ClsS]))) rx_end))))"

lemma attrs_pattern_eq [code]: "attrs_pattern = \<lparr>prog = attrs_ast, groups = 8\<rparr>"
  by code_simp

lemma attrs_pattern_not_nullable: "\<not> nullable (prog attrs_pattern)"
  by code_simp

section \<open>The attribute parser (the body of \<open>Shortcode.attrs\<close>)\<close>

record attrs_obj =
  named :: "(jsstring \<times> jsval) list"
  numeric :: "jsval list"

definition attrs_step :: "match_result \<Rightarrow> attrs_obj \<Rightarrow> attrs_obj" where
  "attrs_step mt acc =
     (if truthy (grp mt 1) then
        acc\<lparr>named := obj_set (toLowerCase (str_of (grp mt 1))) (val_of (grp mt 2)) (named acc)\<rparr>
      else if truthy (grp mt 3) then
        acc\<lparr>named := obj_set (toLowerCase (str_of (grp mt 3))) (val_of (grp mt 4)) (named acc)\<rparr>
      else if truthy (grp mt 5) then
        acc\<lparr>named := obj_set (toLowerCase (str_of (grp mt 5))) (val_of (grp mt 6)) (named acc)\<rparr>
      else if truthy (grp mt 7) then
        acc\<lparr>numeric := numeric acc @ [val_of (grp mt 7)]\<rparr>
      else if truthy (grp mt 8) then
        acc\<lparr>numeric := numeric acc @ [val_of (grp mt 8)]\<rparr>
      else acc)"

function attrs_loop :: "jsstring \<Rightarrow> nat \<Rightarrow> attrs_obj \<Rightarrow> attrs_obj" where
  "attrs_loop text i acc =
     (case exec_at attrs_pattern text i of
        None \<Rightarrow> acc
      | Some mt \<Rightarrow> attrs_loop text (m_end mt) (attrs_step mt acc))"
  by pat_completeness auto
termination
proof (relation "measure (\<lambda>(text, i, acc). Suc (length text) - i)", goal_cases)
  case 1
  show ?case by simp
next
  case (2 tx i acc mt)
  from exec_at_bounds[OF 2] attrs_pattern_not_nullable
  show ?case by auto
qed

definition attrs_body :: "jsstring \<Rightarrow> attrs_obj" where
  "attrs_body text =
     attrs_loop (map (\<lambda>c. if c = 160 \<or> c = 8203 then 32 else c) text) 0
       \<lparr>named = [], numeric = []\<rparr>"



section \<open>The process state: memoization caches and attribute objects\<close>

text \<open>
  \<open>_.memoize\<close> keeps one cache per memoized function, keyed by the argument. The cached
  \<open>RegExp\<close> objects are mutable (\<open>lastIndex\<close>), and so are the cached results of
  \<open>Shortcode.attrs\<close>, which the constructor stores in the new object without copying. The
  attribute objects therefore live in a heap and are held by address.
\<close>

record regexp_obj =
  re_prog :: regexp_prog
  lastIndex :: nat

record world =
  regexp_cache :: "jsstring \<rightharpoonup> regexp_obj"
  attrs_cache :: "jsstring \<rightharpoonup> nat"
  heap :: "attrs_obj list"

definition world0 :: world where
  "world0 = \<lparr>regexp_cache = Map.empty, attrs_cache = Map.empty, heap = []\<rparr>"

definition alloc :: "attrs_obj \<Rightarrow> world \<Rightarrow> nat \<times> world" where
  "alloc v w = (length (heap w), w\<lparr>heap := heap w @ [v]\<rparr>)"

definition regexp :: "jsstring \<Rightarrow> world \<Rightarrow> error + world" where
  "regexp tag w =
     (case regexp_cache w tag of
        Some ro \<Rightarrow> Inr w
      | None \<Rightarrow>
         (case compile (regexp_src tag) of
            Inl e \<Rightarrow> Inl e
          | Inr re \<Rightarrow> Inr (w\<lparr>regexp_cache := (regexp_cache w)(tag \<mapsto> \<lparr>re_prog = re, lastIndex = 0\<rparr>)\<rparr>)))"

definition set_lastIndex :: "jsstring \<Rightarrow> nat \<Rightarrow> world \<Rightarrow> world" where
  "set_lastIndex tag i w =
     (case regexp_cache w tag of
        None \<Rightarrow> w
      | Some ro \<Rightarrow> w\<lparr>regexp_cache := (regexp_cache w)(tag \<mapsto> ro\<lparr>lastIndex := i\<rparr>)\<rparr>)"

definition get_lastIndex :: "jsstring \<Rightarrow> world \<Rightarrow> nat" where
  "get_lastIndex tag w = (case regexp_cache w tag of None \<Rightarrow> 0 | Some ro \<Rightarrow> lastIndex ro)"

definition exec :: "jsstring \<Rightarrow> jsstring \<Rightarrow> world \<Rightarrow> match_result option \<times> world" where
  "exec tag text w =
     (case regexp_cache w tag of
        None \<Rightarrow> (None, w)
      | Some ro \<Rightarrow>
         (case exec_at (re_prog ro) text (lastIndex ro) of
            None \<Rightarrow> (None, set_lastIndex tag 0 w)
          | Some mt \<Rightarrow> (Some mt, set_lastIndex tag (m_end mt) w)))"

definition attrs :: "jsstring \<Rightarrow> world \<Rightarrow> nat \<times> world" where
  "attrs text w =
     (case attrs_cache w text of
        Some a \<Rightarrow> (a, w)
      | None \<Rightarrow>
         (case alloc (attrs_body text) w of
            (a, w') \<Rightarrow> (a, w'\<lparr>attrs_cache := (attrs_cache w')(text \<mapsto> a)\<rparr>)))"

section \<open>Shortcode objects\<close>

datatype attrs_arg = AUndef | AStr jsstring | AObj "(jsstring \<times> jsval) list" | AArr "jsval list"

record options =
  o_tag :: "jsstring option"
  o_attrs :: attrs_arg
  o_type :: "jsstring option"
  o_content :: "jsstring option"

record shortcode =
  sc_tag :: "jsstring option"
  sc_attrs :: nat
  sc_type :: "jsstring option"
  sc_content :: "jsstring option"

datatype akey = KNum nat | KStr jsstring

text \<open>
  \<open>get\<close> reads a property of \<open>attrs.named\<close> or an element of \<open>attrs.numeric\<close>. A name that
  the \<open>named\<close> object does not have itself is looked up in its prototype, which for the
  objects built here is \<open>Object.prototype\<close>: the result is then the member of that name,
  which is not a value that an attribute can have.
\<close>

definition object_prototype_keys :: "jsstring list" where
  "object_prototype_keys =
     [js ''constructor'', js ''__defineGetter__'', js ''__defineSetter__'', js ''hasOwnProperty'',
      js ''__lookupGetter__'', js ''__lookupSetter__'', js ''isPrototypeOf'',
      js ''propertyIsEnumerable'', js ''toString'', js ''valueOf'', js ''__proto__'',
      js ''toLocaleString'']"

datatype got = Value jsval | Inherited jsstring

definition get_sc :: "shortcode \<Rightarrow> akey \<Rightarrow> world \<Rightarrow> got" where
  "get_sc this attr w =
     (let obj = heap w ! sc_attrs this in
      case attr of
        KNum i \<Rightarrow> Value (if i < length (numeric obj) then numeric obj ! i else VUndef)
      | KStr k \<Rightarrow>
          (case map_of (named obj) k of
             Some v \<Rightarrow> Value v
           | None \<Rightarrow> if k \<in> set object_prototype_keys then Inherited k else Value VUndef))"

definition set_sc :: "shortcode \<Rightarrow> akey \<Rightarrow> jsval \<Rightarrow> world \<Rightarrow> world" where
  "set_sc this attr v w =
     (let obj = heap w ! sc_attrs this in
      w\<lparr>heap := (heap w)[sc_attrs this :=
            (case attr of
               KNum i \<Rightarrow> obj\<lparr>numeric := arr_set i v (numeric obj)\<rparr>
             | KStr k \<Rightarrow> obj\<lparr>named := obj_set k v (named obj)\<rparr>)]\<rparr>)"

definition Shortcode :: "options \<Rightarrow> world \<Rightarrow> (error + shortcode) \<times> world" where
  "Shortcode opts w =
     (case alloc \<lparr>named = [], numeric = []\<rparr> w of
        (a0, w0) \<Rightarrow>
          (let this = \<lparr>sc_tag = o_tag opts, sc_attrs = a0, sc_type = o_type opts,
                        sc_content = o_content opts\<rparr>
           in case o_attrs opts of
                AUndef \<Rightarrow> (Inr this, w0)
              | AStr s \<Rightarrow>
                  if s = [] then (Inr this, w0)
                  else (case attrs s w0 of (a, w1) \<Rightarrow> (Inr (this\<lparr>sc_attrs := a\<rparr>), w1))
              | AObj props \<Rightarrow>
                  if map fst props = [js ''named'', js ''numeric''] then
                    (case map snd props of
                       [VObj n, VArr xs] \<Rightarrow>
                         (case alloc \<lparr>named = n, numeric = xs\<rparr> w0 of
                            (a, w1) \<Rightarrow> (Inr (this\<lparr>sc_attrs := a\<rparr>), w1))
                     | _ \<Rightarrow> (Inl Unsupported, w0))
                  else (Inr this, fold (\<lambda>(key, v) w'. set_sc this (KStr key) v w') props w0)
              | AArr xs \<Rightarrow>
                  (Inr this, fold (\<lambda>(i, v) w'. set_sc this (KNum i) v w') (enumerate 0 xs) w0)))"

definition fromMatch :: "match_result \<Rightarrow> world \<Rightarrow> (error + shortcode) \<times> world" where
  "fromMatch mt w =
     Shortcode
       \<lparr>o_tag = grp mt 2,
        o_attrs = (case grp mt 3 of None \<Rightarrow> AUndef | Some s \<Rightarrow> AStr s),
        o_type = Some (if truthy (grp mt 4) then js ''self-closing''
                       else if truthy (grp mt 6) then js ''closed'' else js ''single''),
        o_content = grp mt 5\<rparr> w"

definition string_sc :: "shortcode \<Rightarrow> world \<Rightarrow> jsstring" where
  "string_sc this w =
     (let obj = heap w ! sc_attrs this;
          text0 = js ''['' @ str_of (sc_tag this);
          text1 = fold (\<lambda>v t. if list_ex is_space (to_str v)
                                then t @ js '' \"'' @ to_str v @ js ''\"''
                                else t @ js '' '' @ to_str v) (numeric obj) text0;
          text2 = fold (\<lambda>(name, v) t. t @ js '' '' @ name @ js ''=\"'' @ to_str v @ js ''\"'')
                    (named obj) text1
      in if sc_type this = Some (js ''single'') then text2 @ js '']''
         else if sc_type this = Some (js ''self-closing'') then text2 @ js '' /]''
         else text2 @ js '']''
                @ (if truthy (sc_content this) then str_of (sc_content this) else [])
                @ js ''[/'' @ str_of (sc_tag this) @ js '']'')"

definition string_of :: "options \<Rightarrow> world \<Rightarrow> (error + jsstring) \<times> world" where
  "string_of opts w =
     (case Shortcode opts w of
        (Inl e, w') \<Rightarrow> (Inl e, w')
      | (Inr this, w') \<Rightarrow> (Inr (string_sc this w'), w'))"


section \<open>\<open>Shortcode.next\<close>\<close>

text \<open>
  When the match is an escaped shortcode the source calls itself with \<open>re.lastIndex\<close>. A call
  that repeats its own arguments never returns in JavaScript: the engine raises a
  \<open>RangeError\<close> once the call stack is exhausted, which is the first branch after the
  escape test.
\<close>

record next_result =
  r_index :: nat
  r_content :: jsstring
  r_shortcode :: shortcode

lemma exec_lastIndex:
  "exec tag text w = (Some mt, w') \<Longrightarrow>
     get_lastIndex tag w' = m_end mt \<and> m_end mt \<le> length text \<and> get_lastIndex tag w \<le> m_end mt"
  by (auto simp: exec_def get_lastIndex_def set_lastIndex_def
           split: option.splits dest: exec_at_bounds)

lemma get_set_lastIndex:
  "regexp tag w = Inr w1 \<Longrightarrow> get_lastIndex tag (set_lastIndex tag i w1) = i"
  by (auto simp: regexp_def get_lastIndex_def set_lastIndex_def split: option.splits sum.splits)

definition index_or_0 :: "nat option \<Rightarrow> nat" where
  "index_or_0 index = (case index of None \<Rightarrow> 0 | Some i \<Rightarrow> i)"

function next_sc :: "jsstring \<Rightarrow> jsstring \<Rightarrow> nat option \<Rightarrow> world \<Rightarrow> (error + next_result option) \<times> world" where
  "next_sc tag text index w =
     (case regexp tag w of
        Inl e \<Rightarrow> (Inl e, w)
      | Inr w1 \<Rightarrow>
         (case exec tag text (set_lastIndex tag (index_or_0 index) w1) of
            (None, w3) \<Rightarrow> (Inr None, w3)
          | (Some mt, w3) \<Rightarrow>
              if grp mt 1 = Some (js ''['') \<and> grp mt 7 = Some (js '']'') then
                (if get_lastIndex tag w3 \<le> index_or_0 index then (Inl RangeError, w3)
                 else next_sc tag text (Some (get_lastIndex tag w3)) w3)
              else
                (case fromMatch mt w3 of
                   (Inl e, w4) \<Rightarrow> (Inl e, w4)
                 | (Inr sc, w4) \<Rightarrow>
                     (let content0 = str_of (grp mt 0);
                          index1 = (if truthy (grp mt 1) then Suc (m_index mt) else m_index mt);
                          content1 = (if truthy (grp mt 1) then drop 1 content0 else content0);
                          content2 = (if truthy (grp mt 7) then butlast content1 else content1)
                      in (Inr (Some \<lparr>r_index = index1, r_content = content2, r_shortcode = sc\<rparr>),
                          w4)))))"
  by pat_completeness auto
termination
proof (relation "measure (\<lambda>(tag, text, index, w). length text - index_or_0 index)", goal_cases)
  case 1
  show ?case by simp
next
  case (2 tag tx index w w1 p w3 mt)
  from 2 have "exec tag tx (set_lastIndex tag (index_or_0 index) w1) = (Some mt, w3)"
    by simp
  from exec_lastIndex[OF this] 2 show ?case by (auto simp: index_or_0_def)
qed

section \<open>\<open>Shortcode.replace\<close>\<close>

text \<open>
  \<open>replace\<close> hands the text, the cached pattern and a function of its own to the
  substitution engine. The function is called with one occurrence and with the completion
  handle \<open>done\<close> of the engine. For a fully escaped occurrence it executes \<open>return match\<close>
  and nothing else: \<open>done\<close> is not used. Otherwise it builds the entity and calls
  \<open>replacer\<close> with the entity and \<open>done\<close>; what \<open>replacer\<close> returns is assigned to a local
  variable that is never read, and the function returns nothing.
\<close>

datatype cb_outcome = Returned jsstring | Replacer shortcode

definition replace_callback :: "match_result \<Rightarrow> world \<Rightarrow> (error + cb_outcome) \<times> world" where
  "replace_callback mt w =
     (if grp mt 1 = Some (js ''['') \<and> grp mt 7 = Some (js '']'') then
        (Inr (Returned (str_of (grp mt 0))), w)
      else
        (case fromMatch mt w of
           (Inl e, w') \<Rightarrow> (Inl e, w')
         | (Inr sc, w') \<Rightarrow> (Inr (Replacer sc), w')))"

text \<open>
  Modelled from the spec: the substitution engine \<open>asyncReplace\<close> belongs to the package
  \<open>async-replace\<close>, which is not part of the source. As section 4.5 of the specification
  describes it and as the source calls it, the engine finds all occurrences of the pattern
  in the text from left to right (\<open>occurrences\<close>; after an empty match the search resumes
  one position further), calls the function for one occurrence after the other, waits each
  time until the result is reported through \<open>done\<close>, and joins the unmatched spans and the
  reported replacements in order. A failure reported through \<open>done\<close> ends the pass without
  an output. A pass in which a call never reports through \<open>done\<close> has no result.
  The caller's \<open>replacer\<close> is a parameter: it takes the entity and the state and says what
  it reports through \<open>done\<close>, if anything.
\<close>

function occurrences :: "regexp_prog \<Rightarrow> jsstring \<Rightarrow> nat \<Rightarrow> match_result list" where
  "occurrences re text i =
     (case exec_at re text i of
        None \<Rightarrow> []
      | Some mt \<Rightarrow>
          mt # occurrences re text (if m_end mt = m_index mt then Suc (m_end mt) else m_end mt))"
  by pat_completeness auto
termination
proof (relation "measure (\<lambda>(re, text, i). Suc (length text) - i)", goal_cases)
  case 1
  show ?case by simp
next
  case (2 re tx i mt)
  from exec_at_bounds[OF 2] show ?case by auto
qed

lemmas occurrences_unfold = occurrences.simps
declare occurrences.simps [simp del]

datatype completion = Pending | Failure jsstring | Replacement jsstring

datatype replace_result = NoResult | Thrown error | Failed jsstring | Output jsstring

type_synonym replacer = "shortcode \<Rightarrow> world \<Rightarrow> completion \<times> world"

fun run_replace :: "replacer \<Rightarrow> jsstring \<Rightarrow> nat \<Rightarrow> match_result list \<Rightarrow> world \<Rightarrow>
    replace_result \<times> world" where
  "run_replace rp text p [] w = (Output (drop p text), w)"
| "run_replace rp text p (mt # ms) w =
     (case replace_callback mt w of
        (Inl e, w1) \<Rightarrow> (Thrown e, w1)
      | (Inr (Returned s), w1) \<Rightarrow> (NoResult, w1)
      | (Inr (Replacer sc), w1) \<Rightarrow>
          (case rp sc w1 of
             (Pending, w2) \<Rightarrow> (NoResult, w2)
           | (Failure e, w2) \<Rightarrow> (Failed e, w2)
           | (Replacement s, w2) \<Rightarrow>
               (case run_replace rp text (m_end mt) ms w2 of
                  (Output rest, w3) \<Rightarrow> (Output (take (m_index mt - p) (drop p text) @ s @ rest), w3)
                | (r, w3) \<Rightarrow> (r, w3))))"

definition replace :: "jsstring \<Rightarrow> jsstring \<Rightarrow> replacer \<Rightarrow> world \<Rightarrow> replace_result \<times> world" where
  "replace tag text rp w =
     (case regexp tag w of
        Inl e \<Rightarrow> (Thrown e, w)
      | Inr w1 \<Rightarrow>
          (case regexp_cache w1 tag of
             None \<Rightarrow> (Thrown TypeError, w1)
           | Some ro \<Rightarrow> run_replace rp text 0 (occurrences (re_prog ro) text 0) w1))"

text \<open>The occurrences for which \<open>replacer\<close> is called in a pass, in the order of the calls.\<close>

fun replacer_calls :: "replacer \<Rightarrow> match_result list \<Rightarrow> world \<Rightarrow> match_result list" where
  "replacer_calls rp [] w = []"
| "replacer_calls rp (mt # ms) w =
     (case replace_callback mt w of
        (Inr (Replacer sc), w1) \<Rightarrow>
          mt # (case rp sc w1 of
                  (Replacement s, w2) \<Rightarrow> replacer_calls rp ms w2
                | _ \<Rightarrow> [])
      | _ \<Rightarrow> [])"

definition replace_calls :: "jsstring \<Rightarrow> jsstring \<Rightarrow> replacer \<Rightarrow> world \<Rightarrow> match_result list" where
  "replace_calls tag text rp w =
     (case regexp tag w of
        Inl e \<Rightarrow> []
      | Inr w1 \<Rightarrow>
          (case regexp_cache w1 tag of
             None \<Rightarrow> []
           | Some ro \<Rightarrow> replacer_calls rp (occurrences (re_prog ro) text 0) w1))"

definition escaped :: "match_result \<Rightarrow> bool" where
  "escaped mt \<longleftrightarrow> grp mt 1 = Some (js ''['') \<and> grp mt 7 = Some (js '']'')"

section \<open>The compiled shortcode pattern\<close>

definition rx_opt :: "regex \<Rightarrow> regex" where
  "rx_opt r = RRep r 0 (Some 1) True"

definition rx_attr_text :: regex where
  "rx_attr_text =
     RSeq (rep_star (RSet True [CRange 93 93, CRange 47 47]))
       (RRep (RSeq (RChar 47)
                (RSeq (RLook True (RChar 93)) (rep_star (RSet True [CRange 93 93, CRange 47 47]))))
          0 None False)"

definition rx_closing :: regex where
  "rx_closing = RSeq (RChar 91) (RSeq (RChar 47) (RSeq (RBackref 2) (RChar 93)))"

definition rx_content :: regex where
  "rx_content =
     RSeq (rep_star (RSet True [CRange 91 91]))
       (rep_star (RSeq (RChar 91)
          (RSeq (RLook True (RSeq (RChar 47) (RSeq (RBackref 2) (RChar 93))))
             (rep_star (RSet True [CRange 91 91])))))"

definition rx_tail :: regex where
  "rx_tail =
     RSeq (RAlt (RSeq (RGroup 4 (RChar 47)) (RChar 93))
                (RSeq (RChar 93) (rx_opt (RSeq (RGroup 5 rx_content) (RGroup 6 rx_closing)))))
          (RGroup 7 (rx_opt (RChar 93)))"

definition tag_ast :: "jsstring \<Rightarrow> regex" where
  "tag_ast tag =
     RSeq (RChar 91)
       (RSeq (RGroup 1 (rx_opt (RChar 91)))
         (RSeq (RGroup 2 (mk_seq (map RChar tag)))
           (RSeq (RLook True (RSet False [CClass False ClsW, CRange 45 45]))
             (RSeq (RGroup 3 rx_attr_text) rx_tail))))"

definition plain :: "nat \<Rightarrow> bool" where
  "plain c \<longleftrightarrow> c \<noteq> 92 \<and> c \<noteq> 40 \<and> c \<noteq> 41 \<and> c \<noteq> 124 \<and> c \<noteq> 42 \<and> c \<noteq> 43 \<and> c \<noteq> 63 \<and>
     c \<noteq> 91 \<and> c \<noteq> 46 \<and> c \<noteq> 36 \<and> c \<noteq> 94 \<and> c \<noteq> 123"

lemma tokenize_plain:
  "list_all plain xs \<Longrightarrow> tokenize n (xs @ ys) = map (\<lambda>c. TAtom (RChar c)) xs @ tokenize n ys"
  by (induction xs) (simp_all add: plain_def)

lemma psteps_append:
  "psteps (ts @ us) st = (case psteps ts st of Inl e \<Rightarrow> Inl e | Inr st' \<Rightarrow> psteps us st')"
  by (induction ts arbitrary: st) (simp_all split: sum.splits)

lemma psteps_chars:
  "frames st = f # fs \<Longrightarrow>
   psteps (map (\<lambda>c. TAtom (RChar c)) xs) st =
     Inr (st\<lparr>frames := f\<lparr>f_seq := rev (map RChar xs) @ f_seq f\<rparr> # fs,
             qs := (if xs = [] then qs st else QAtom)\<rparr>)"
proof (induction xs arbitrary: st f)
  case Nil
  then show ?case by simp
next
  case (Cons x xs)
  let ?st = "st\<lparr>frames := f\<lparr>f_seq := RChar x # f_seq f\<rparr> # fs, qs := QAtom\<rparr>"
  have "pstep (TAtom (RChar x)) st = Inr ?st"
    using Cons.prems by (simp add: push_term_def)
  moreover have "frames ?st = f\<lparr>f_seq := RChar x # f_seq f\<rparr> # fs" by simp
  ultimately show ?case using Cons.IH[of ?st "f\<lparr>f_seq := RChar x # f_seq f\<rparr>"]
    by simp
qed

lemma group_names_append: "group_names (ts @ us) = group_names ts @ group_names us"
  by (simp add: group_names_def map_filter_def)

lemma group_names_chars: "group_names (map (\<lambda>c. TAtom (RChar c)) xs) = []"
  by (induction xs) (simp_all add: group_names_def map_filter_simps)

lemma resolve_chars:
  "concat (map (resolve gs) (map (\<lambda>c. TAtom (RChar c)) xs)) = map (\<lambda>c. TAtom (RChar c)) xs"
  by (induction xs) simp_all

lemmas ast_defs = tag_ast_def rx_tail_def rx_content_def rx_closing_def rx_attr_text_def
  rx_opt_def rep_star_def rep_plus_def

lemmas tok_defs = pat_def atom_escape_def in_class_escape_def class_escape_def control_escape_def
  is_digit_def is_letter_def octal_escape_def is_octal_def brace_quant_def hex_n_def hexval_def

definition prefix_tokens :: "token list" where
  "prefix_tokens =
     [TAtom (RChar 91), TOpen GCapture, TAtom (RChar 91), TQuest, TClose, TOpen GCapture]"

definition suffix_tokens :: "token list" where
  "suffix_tokens =
     tokenize False (pat '')(?![%w-])([^%]%/]*(?:%/(?!%])[^%]%/]*)*?)(?:(%/)%]|%](?:([^%[]*(?:%[(?!%/%2%])[^%[]*)*)(%[%/%2%]))?)(%]?)'')"

lemma tokenize_regexp_src:
  assumes "list_all plain tag"
  shows "tokenize False (regexp_src tag) =
     prefix_tokens @ map (\<lambda>c. TAtom (RChar c)) tag @ suffix_tokens"
proof -
  let ?suffix = "pat '')(?![%w-])([^%]%/]*(?:%/(?!%])[^%]%/]*)*?)(?:(%/)%]|%](?:([^%[]*(?:%[(?!%/%2%])[^%[]*)*)(%[%/%2%]))?)(%]?)''"
  have pre: "tokenize False (pat ''%[(%[?)('' @ rest) = prefix_tokens @ tokenize False rest"
    if "rest \<noteq> []" "hd rest \<noteq> 63" for rest
    using that by (cases rest) (simp_all add: tok_defs prefix_tokens_def)
  have ne: "tag @ ?suffix \<noteq> []" by (simp add: pat_def)
  have hd: "hd (tag @ ?suffix) \<noteq> 63"
    using assms by (cases tag) (simp_all add: pat_def plain_def)
  show ?thesis
    unfolding regexp_src_def pre[OF ne hd] tokenize_plain[OF assms] suffix_tokens_def by simp
qed

lemma suffix_tokens_eq:
  "suffix_tokens =
     [TClose, TOpen (GLook True), TAtom (RSet False [CClass False ClsW, CRange 45 45]), TClose,
      TOpen GCapture, TAtom (RSet True [CRange 93 93, CRange 47 47]), TQuant 0 None,
      TOpen GPlain, TAtom (RChar 47), TOpen (GLook True), TAtom (RChar 93), TClose,
      TAtom (RSet True [CRange 93 93, CRange 47 47]), TQuant 0 None, TClose, TQuant 0 None, TQuest,
      TClose, TOpen GPlain, TOpen GCapture, TAtom (RChar 47), TClose, TAtom (RChar 93), TBar,
      TAtom (RChar 93), TOpen GPlain, TOpen GCapture, TAtom (RSet True [CRange 91 91]),
      TQuant 0 None, TOpen GPlain, TAtom (RChar 91), TOpen (GLook True), TAtom (RChar 47),
      TDecimal [50], TAtom (RChar 93), TClose, TAtom (RSet True [CRange 91 91]), TQuant 0 None,
      TClose, TQuant 0 None, TClose, TOpen GCapture, TAtom (RChar 91), TAtom (RChar 47),
      TDecimal [50], TAtom (RChar 93), TClose, TClose, TQuest, TClose, TOpen GCapture,
      TAtom (RChar 93), TQuest, TClose]"
  by (simp add: suffix_tokens_def tok_defs)

lemma group_names_regexp_src:
  "group_names (prefix_tokens @ map (\<lambda>c. TAtom (RChar c)) tag @ suffix_tokens) = replicate 7 None"
  by (simp add: group_names_append group_names_chars)
     (simp add: group_names_def prefix_tokens_def suffix_tokens_eq map_filter_simps numeral_eq_Suc)

lemma pattern_tokens_regexp_src:
  assumes "list_all plain tag"
  shows "pattern_tokens (regexp_src tag) =
     prefix_tokens @ map (\<lambda>c. TAtom (RChar c)) tag @ suffix_tokens"
  by (simp add: pattern_tokens_def has_names_def tokenize_regexp_src[OF assms]
        group_names_regexp_src numeral_eq_Suc)

definition after_prefix :: pstate where
  "after_prefix =
     \<lparr>frames = [\<lparr>f_kind = GCapture, f_index = 2, f_alts = [], f_seq = []\<rparr>,
                \<lparr>f_kind = GPlain, f_index = 0, f_alts = [],
                   f_seq = [RGroup 1 (rx_opt (RChar 91)), RChar 91]\<rparr>],
      qs = QNone, ngroups = 2\<rparr>"

lemma psteps_prefix: "psteps prefix_tokens pstart = Inr after_prefix"
  by (simp add: prefix_tokens_def pstart_def after_prefix_def push_term_def close_frame_def
        rx_opt_def)

lemma resolve_prefix: "concat (map (resolve gs) prefix_tokens) = prefix_tokens"
  by (simp add: prefix_tokens_def)

lemma compile_regexp_src:
  assumes "list_all plain tag"
  shows "compile (regexp_src tag) = Inr \<lparr>prog = tag_ast tag, groups = 7\<rparr>"
proof -
  have fr: "frames after_prefix =
      \<lparr>f_kind = GCapture, f_index = 2, f_alts = [], f_seq = []\<rparr> #
      [\<lparr>f_kind = GPlain, f_index = 0, f_alts = [],
         f_seq = [RGroup 1 (rx_opt (RChar 91)), RChar 91]\<rparr>]"
    by (simp add: after_prefix_def)
  have nm: "named_groups (prefix_tokens @ map (\<lambda>c. TAtom (RChar c)) tag @ suffix_tokens) = []"
    by (simp add: named_groups_def group_names_regexp_src)
  show ?thesis
    unfolding compile_def pattern_tokens_regexp_src[OF assms] Let_def nm group_names_regexp_src
    apply (simp only: map_append concat_append resolve_chars resolve_prefix psteps_append
        psteps_prefix sum.case psteps_chars[OF fr])
    apply (simp add: suffix_tokens_eq numeral_eq_Suc)
    apply (simp add: push_term_def close_frame_def after_prefix_def pfinish_def ast_defs)
    done
qed

section \<open>Observing results\<close>

record sc_view =
  v_tag :: "jsstring option"
  v_attrs :: attrs_obj
  v_type :: "jsstring option"
  v_content :: "jsstring option"

definition view :: "shortcode \<Rightarrow> world \<Rightarrow> sc_view" where
  "view sc w = \<lparr>v_tag = sc_tag sc, v_attrs = heap w ! sc_attrs sc, v_type = sc_type sc,
                 v_content = sc_content sc\<rparr>"

definition observe :: "(error + next_result option) \<times> world \<Rightarrow> error + (nat \<times> jsstring \<times> sc_view) option" where
  "observe p =
     (case fst p of
        Inl e \<Rightarrow> Inl e
      | Inr None \<Rightarrow> Inr None
      | Inr (Some r) \<Rightarrow> Inr (Some (r_index r, r_content r, view (r_shortcode r) (snd p))))"

section \<open>Notions used in the statements\<close>

definition new_attrs :: "options \<Rightarrow> world \<Rightarrow> error + attrs_obj" where
  "new_attrs opts w =
     (case Shortcode opts w of
        (Inl e, w') \<Rightarrow> Inl e
      | (Inr sc, w') \<Rightarrow> Inr (heap w' ! sc_attrs sc))"





section \<open>Evaluation on concrete inputs\<close>

lemmas rx_defs = attrs_ast_def rx_assign_def rx_quoted_def rx_end_def rx_word_def rx_space_def
  rep_star_def rep_plus_def

lemmas ev_rx = exec_at_def rmatch_rep in_items_def is_word_def is_digit_def is_space_def
  dec_max_def truthy_def grp_def str_of_def val_of_def

lemmas ev_attrs = attrs_pattern_eq rx_defs attrs_body_def attrs_step_def obj_set_def
  array_index_def toLowerCase_def

lemmas ev_world = world0_def regexp_def exec_def set_lastIndex_def get_lastIndex_def
  index_or_0_def fromMatch_def Shortcode_def alloc_def attrs_def observe_def view_def set_sc_def

lemma plain_x: "list_all plain (js ''x'')"
  by (simp add: plain_def)

lemmas compile_x = compile_regexp_src[OF plain_x, simplified]

lemma scan_whole:
  "scan re t i inp = Some mt \<Longrightarrow>
     \<exists>j. m_index mt = i + j \<and>
         grp mt 0 = Some (take (m_end mt - m_index mt) (drop j inp))"
proof (induction re t i inp rule: scan.induct)
  case (1 re t i inp)
  show ?case
  proof (cases "rmatch t (prog re) Fwd (inp, replicate (Suc (groups re)) None) Some")
    case None
    with "1.prems" obtain x xs where inp: "inp = x # xs" and sc: "scan re t (Suc i) xs = Some mt"
      by (cases inp) simp_all
    from "1.IH"[OF None inp sc] obtain j where
      "m_index mt = Suc i + j" "grp mt 0 = Some (take (m_end mt - m_index mt) (drop j xs))"
      by blast
    then show ?thesis using inp by (intro exI[of _ "Suc j"]) simp
  next
    case (Some s')
    from rmatch_reach[OF Some] have len: "length (snd s') = Suc (groups re)"
      by (simp add: reach_def)
    from "1.prems" Some have
      "mt = \<lparr>m_index = i,
             m_groups = (snd s')[0 := Some (take (length inp - length (fst s')) inp)],
             m_end = i + (length inp - length (fst s'))\<rparr>" by simp
    then show ?thesis using len by (intro exI[of _ 0]) (simp add: grp_def)
  qed
qed

lemma exec_at_whole:
  assumes "exec_at re text i = Some mt"
  shows "grp mt 0 = Some (take (m_end mt - m_index mt) (drop (m_index mt) text))"
proof -
  from assms have "scan re text i (drop i text) = Some mt"
    by (simp add: exec_at_def split: if_splits)
  from scan_whole[OF this] show ?thesis by (auto simp: add.commute)
qed

lemma replicate_numeral: "replicate (numeral n) x = x # replicate (pred_numeral n) x"
  by (simp add: numeral_eq_Suc)

lemma list_update_Cons_numeral: "(x # xs)[numeral n := y] = x # xs[pred_numeral n := y]"
  by (simp add: numeral_eq_Suc)

lemmas ev_list = replicate_numeral list_update_Cons_numeral


section \<open>What a call of \<open>next\<close> depends on\<close>

text \<open>
  In a state where every cached attribute address points into the heap (which holds
  initially and is preserved by every operation), the observable result of \<open>next_sc\<close>
  depends on the state only through the pattern cached or compiled for the tag
  (\<open>prog_of\<close>) and through what the attribute cache yields for each string (\<open>attrs_view\<close>).
  Neither involves \<open>lastIndex\<close>.
\<close>

definition valid_world :: "world \<Rightarrow> bool" where
  "valid_world w \<longleftrightarrow> (\<forall>s a. attrs_cache w s = Some a \<longrightarrow> a < length (heap w))"

definition prog_of :: "world \<Rightarrow> jsstring \<Rightarrow> error + regexp_prog" where
  "prog_of w tag =
     (case regexp_cache w tag of
        Some ro \<Rightarrow> Inr (re_prog ro)
      | None \<Rightarrow> compile (regexp_src tag))"

definition attrs_view :: "world \<Rightarrow> jsstring \<Rightarrow> attrs_obj" where
  "attrs_view w s = (case attrs_cache w s of Some a \<Rightarrow> heap w ! a | None \<Rightarrow> attrs_body s)"

definition world_eqv :: "jsstring \<Rightarrow> world \<Rightarrow> world \<Rightarrow> bool" where
  "world_eqv tag w w' \<longleftrightarrow> prog_of w tag = prog_of w' tag \<and> attrs_view w = attrs_view w'"

lemma world_eqv_refl: "world_eqv tag w w"
  by (simp add: world_eqv_def)

lemma world_eqv_trans: "world_eqv tag w w' \<Longrightarrow> world_eqv tag w' w'' \<Longrightarrow> world_eqv tag w w''"
  by (simp add: world_eqv_def)

lemma world_eqv_sym: "world_eqv tag w w' \<Longrightarrow> world_eqv tag w' w"
  by (simp add: world_eqv_def)

lemma regexp_Inl: "prog_of w tag = Inl e \<Longrightarrow> regexp tag w = Inl e"
  by (auto simp: prog_of_def regexp_def split: option.splits)

lemma regexp_Inr:
  assumes "prog_of w tag = Inr p"
  obtains w1 ro where "regexp tag w = Inr w1" "regexp_cache w1 tag = Some ro" "re_prog ro = p"
    "attrs_cache w1 = attrs_cache w" "heap w1 = heap w"
proof (cases "regexp_cache w tag")
  case None
  with assms have "compile (regexp_src tag) = Inr p" by (simp add: prog_of_def)
  with None show ?thesis
    by (intro that[of "w\<lparr>regexp_cache := (regexp_cache w)(tag \<mapsto> \<lparr>re_prog = p, lastIndex = 0\<rparr>)\<rparr>"
                     "\<lparr>re_prog = p, lastIndex = 0\<rparr>"]) (simp_all add: regexp_def)
next
  case (Some ro)
  with assms show ?thesis by (intro that[of w ro]) (simp_all add: regexp_def prog_of_def)
qed

lemma exec_set_lastIndex:
  assumes "regexp_cache w1 tag = Some ro"
  shows "exec tag text (set_lastIndex tag i w1) =
     (exec_at (re_prog ro) text i,
      w1\<lparr>regexp_cache := (regexp_cache w1)
            (tag \<mapsto> ro\<lparr>lastIndex := (case exec_at (re_prog ro) text i of None \<Rightarrow> 0
                                          | Some mt \<Rightarrow> m_end mt)\<rparr>)\<rparr>)"
  using assms by (simp add: exec_def set_lastIndex_def split: option.splits)

definition match_view :: "match_result \<Rightarrow> (jsstring \<Rightarrow> attrs_obj) \<Rightarrow> sc_view" where
  "match_view mt av =
     \<lparr>v_tag = grp mt 2,
      v_attrs = (case grp mt 3 of
                   None \<Rightarrow> \<lparr>named = [], numeric = []\<rparr>
                 | Some s \<Rightarrow> if s = [] then \<lparr>named = [], numeric = []\<rparr> else av s),
      v_type = Some (if truthy (grp mt 4) then js ''self-closing''
                     else if truthy (grp mt 6) then js ''closed'' else js ''single''),
      v_content = grp mt 5\<rparr>"

lemma fromMatch_view:
  assumes "valid_world w"
  obtains sc w4 where "fromMatch mt w = (Inr sc, w4)" "view sc w4 = match_view mt (attrs_view w)"
    "valid_world w4" "attrs_view w4 = attrs_view w" "regexp_cache w4 = regexp_cache w"
proof -
  let ?e = "\<lparr>named = [], numeric = []\<rparr>"
  let ?w0 = "w\<lparr>heap := heap w @ [?e]\<rparr>"
  have v0: "valid_world ?w0" using assms by (auto simp: valid_world_def less_Suc_eq)
  have av0: "attrs_view ?w0 = attrs_view w"
    using assms by (auto simp: attrs_view_def valid_world_def nth_append fun_eq_iff split: option.splits)
  show ?thesis
  proof (cases "grp mt 3")
    case None
    then show ?thesis
      using v0 av0
      by (intro that[of "\<lparr>sc_tag = grp mt 2, sc_attrs = length (heap w),
            sc_type = Some (if truthy (grp mt 4) then js ''self-closing''
                     else if truthy (grp mt 6) then js ''closed'' else js ''single''),
            sc_content = grp mt 5\<rparr>" ?w0])
         (simp_all add: fromMatch_def Shortcode_def alloc_def view_def match_view_def)
  next
    case (Some s)
    show ?thesis
    proof (cases "s = []")
      case True
      with Some show ?thesis
        using v0 av0
        by (intro that[of "\<lparr>sc_tag = grp mt 2, sc_attrs = length (heap w),
            sc_type = Some (if truthy (grp mt 4) then js ''self-closing''
                     else if truthy (grp mt 6) then js ''closed'' else js ''single''),
            sc_content = grp mt 5\<rparr>" ?w0])
         (simp_all add: fromMatch_def Shortcode_def alloc_def view_def match_view_def)
    next
      case ne: False
      show ?thesis
      proof (cases "attrs_cache w s")
        case (Some a)
        with assms have lt: "a < length (heap w)" by (simp add: valid_world_def)
        from Some ne \<open>grp mt 3 = Some s\<close> lt show ?thesis
          using v0 av0
          by (intro that[of "\<lparr>sc_tag = grp mt 2, sc_attrs = a,
            sc_type = Some (if truthy (grp mt 4) then js ''self-closing''
                     else if truthy (grp mt 6) then js ''closed'' else js ''single''),
            sc_content = grp mt 5\<rparr>" ?w0])
         (simp_all add: fromMatch_def Shortcode_def alloc_def attrs_def view_def match_view_def
             attrs_view_def nth_append)
      next
        case None
        let ?w1 = "w\<lparr>heap := heap w @ [?e, attrs_body s],
                     attrs_cache := (attrs_cache w)(s \<mapsto> Suc (length (heap w)))\<rparr>"
        have v1: "valid_world ?w1" using assms by (auto simp: valid_world_def less_Suc_eq)
        have av1: "attrs_view ?w1 = attrs_view w"
          using assms None
          by (auto simp: attrs_view_def valid_world_def nth_append fun_eq_iff split: option.splits)
        from None ne \<open>grp mt 3 = Some s\<close> show ?thesis
          using v1 av1
          by (intro that[of "\<lparr>sc_tag = grp mt 2, sc_attrs = Suc (length (heap w)),
            sc_type = Some (if truthy (grp mt 4) then js ''self-closing''
                     else if truthy (grp mt 6) then js ''closed'' else js ''single''),
            sc_content = grp mt 5\<rparr>" ?w1])
         (simp_all add: fromMatch_def Shortcode_def alloc_def attrs_def view_def match_view_def
             attrs_view_def nth_append)
      qed
    qed
  qed
qed


lemmas next_sc_unfold = next_sc.simps
declare next_sc.simps [simp del]

lemma next_sc_Inl: "prog_of w tag = Inl e \<Longrightarrow> next_sc tag text index w = (Inl e, w)"
  by (subst next_sc_unfold) (simp add: regexp_Inl)

definition result_of :: "match_result \<Rightarrow> shortcode \<Rightarrow> next_result" where
  "result_of mt sc =
     \<lparr>r_index = (if truthy (grp mt 1) then Suc (m_index mt) else m_index mt),
      r_content =
        (if truthy (grp mt 7)
         then butlast (if truthy (grp mt 1) then drop 1 (str_of (grp mt 0)) else str_of (grp mt 0))
         else (if truthy (grp mt 1) then drop 1 (str_of (grp mt 0)) else str_of (grp mt 0))),
      r_shortcode = sc\<rparr>"

lemma next_sc_step:
  assumes "prog_of w tag = Inr p"
  obtains w3 where "prog_of w3 tag = Inr p" "attrs_cache w3 = attrs_cache w" "heap w3 = heap w"
    "exec_at p text (index_or_0 index) = None \<Longrightarrow> next_sc tag text index w = (Inr None, w3)"
    "\<And>mt. exec_at p text (index_or_0 index) = Some mt \<Longrightarrow> escaped mt \<Longrightarrow>
        m_end mt \<le> index_or_0 index \<Longrightarrow> next_sc tag text index w = (Inl RangeError, w3)"
    "\<And>mt. exec_at p text (index_or_0 index) = Some mt \<Longrightarrow> escaped mt \<Longrightarrow>
        \<not> m_end mt \<le> index_or_0 index \<Longrightarrow>
        next_sc tag text index w = next_sc tag text (Some (m_end mt)) w3"
    "\<And>mt sc w4. exec_at p text (index_or_0 index) = Some mt \<Longrightarrow> \<not> escaped mt \<Longrightarrow>
        fromMatch mt w3 = (Inr sc, w4) \<Longrightarrow>
        next_sc tag text index w = (Inr (Some (result_of mt sc)), w4)"
proof -
  from regexp_Inr[OF assms] obtain w1 ro where
    r: "regexp tag w = Inr w1" "regexp_cache w1 tag = Some ro" "re_prog ro = p"
       "attrs_cache w1 = attrs_cache w" "heap w1 = heap w" by blast
  let ?i = "index_or_0 index"
  let ?w3 = "w1\<lparr>regexp_cache := (regexp_cache w1)
            (tag \<mapsto> ro\<lparr>lastIndex := (case exec_at (re_prog ro) text ?i of None \<Rightarrow> 0
                                          | Some mt \<Rightarrow> m_end mt)\<rparr>)\<rparr>"
  have ex: "exec tag text (set_lastIndex tag ?i w1) = (exec_at p text ?i, ?w3)"
    using exec_set_lastIndex[OF r(2), of "text" ?i] r(3) by simp
  have unf: "next_sc tag text index w =
       (case exec_at p text ?i of
          None \<Rightarrow> (Inr None, ?w3)
        | Some mt \<Rightarrow>
            if escaped mt then
              (if m_end mt \<le> ?i then (Inl RangeError, ?w3)
               else next_sc tag text (Some (m_end mt)) ?w3)
            else
              (case fromMatch mt ?w3 of
                 (Inl e, w4) \<Rightarrow> (Inl e, w4)
               | (Inr sc, w4) \<Rightarrow> (Inr (Some (result_of mt sc)), w4)))"
    apply (subst next_sc_unfold)
    apply (simp only: r(1) ex sum.case)
    apply (cases "exec_at p text (index_or_0 index)")
     apply (simp_all add: get_lastIndex_def r(3) Let_def escaped_def result_of_def
              split: prod.splits sum.splits)
    done
  show ?thesis
  proof (rule that[of ?w3])
    show "prog_of ?w3 tag = Inr p" using r(3) by (simp add: prog_of_def)
    show "attrs_cache ?w3 = attrs_cache w" using r(4) by simp
    show "heap ?w3 = heap w" using r(5) by simp
    show "exec_at p text ?i = None \<Longrightarrow> next_sc tag text index w = (Inr None, ?w3)"
      by (simp add: unf)
    show "\<And>mt. exec_at p text ?i = Some mt \<Longrightarrow> escaped mt \<Longrightarrow>
        m_end mt \<le> ?i \<Longrightarrow> next_sc tag text index w = (Inl RangeError, ?w3)"
      by (simp add: unf)
    show "\<And>mt. exec_at p text ?i = Some mt \<Longrightarrow> escaped mt \<Longrightarrow>
        \<not> m_end mt \<le> ?i \<Longrightarrow>
        next_sc tag text index w = next_sc tag text (Some (m_end mt)) ?w3"
      by (simp add: unf)
    show "\<And>mt sc w4. exec_at p text ?i = Some mt \<Longrightarrow> \<not> escaped mt \<Longrightarrow>
        fromMatch mt ?w3 = (Inr sc, w4) \<Longrightarrow>
        next_sc tag text index w = (Inr (Some (result_of mt sc)), w4)"
      by (simp add: unf)
  qed
qed

lemma attrs_view_cong:
  "attrs_cache w3 = attrs_cache w \<Longrightarrow> heap w3 = heap w \<Longrightarrow> attrs_view w3 = attrs_view w"
  by (rule ext) (simp add: attrs_view_def split: option.splits)

lemma valid_world_cong:
  "attrs_cache w3 = attrs_cache w \<Longrightarrow> heap w3 = heap w \<Longrightarrow> valid_world w3 = valid_world w"
  by (simp add: valid_world_def)

lemma observe_next_eqv:
  "world_eqv tag w w' \<Longrightarrow> valid_world w \<Longrightarrow> valid_world w' \<Longrightarrow>
     observe (next_sc tag text index w) = observe (next_sc tag text index w')"
proof (induction "length text - index_or_0 index" arbitrary: index w w' rule: less_induct)
  case less
  let ?i = "index_or_0 index"
  show ?case
  proof (cases "prog_of w tag")
    case (Inl e)
    with less.prems have "prog_of w' tag = Inl e" by (simp add: world_eqv_def)
    with Inl show ?thesis by (simp add: next_sc_Inl observe_def)
  next
    case (Inr p)
    with less.prems have p': "prog_of w' tag = Inr p" by (simp add: world_eqv_def)
    from next_sc_step[OF Inr, of "text" index] obtain w3 where
      w3: "prog_of w3 tag = Inr p" "attrs_cache w3 = attrs_cache w" "heap w3 = heap w"
      and n: "exec_at p text ?i = None \<Longrightarrow> next_sc tag text index w = (Inr None, w3)"
        "\<And>mt. exec_at p text ?i = Some mt \<Longrightarrow> escaped mt \<Longrightarrow>
           m_end mt \<le> ?i \<Longrightarrow> next_sc tag text index w = (Inl RangeError, w3)"
        "\<And>mt. exec_at p text ?i = Some mt \<Longrightarrow> escaped mt \<Longrightarrow>
           \<not> m_end mt \<le> ?i \<Longrightarrow>
           next_sc tag text index w = next_sc tag text (Some (m_end mt)) w3"
        "\<And>mt sc w4. exec_at p text ?i = Some mt \<Longrightarrow> \<not> escaped mt \<Longrightarrow>
           fromMatch mt w3 = (Inr sc, w4) \<Longrightarrow>
           next_sc tag text index w = (Inr (Some (result_of mt sc)), w4)"
      by blast
    from next_sc_step[OF p', of "text" index] obtain w3' where
      w3': "prog_of w3' tag = Inr p" "attrs_cache w3' = attrs_cache w'" "heap w3' = heap w'"
      and n': "exec_at p text ?i = None \<Longrightarrow> next_sc tag text index w' = (Inr None, w3')"
        "\<And>mt. exec_at p text ?i = Some mt \<Longrightarrow> escaped mt \<Longrightarrow>
           m_end mt \<le> ?i \<Longrightarrow> next_sc tag text index w' = (Inl RangeError, w3')"
        "\<And>mt. exec_at p text ?i = Some mt \<Longrightarrow> escaped mt \<Longrightarrow>
           \<not> m_end mt \<le> ?i \<Longrightarrow>
           next_sc tag text index w' = next_sc tag text (Some (m_end mt)) w3'"
        "\<And>mt sc w4. exec_at p text ?i = Some mt \<Longrightarrow> \<not> escaped mt \<Longrightarrow>
           fromMatch mt w3' = (Inr sc, w4) \<Longrightarrow>
           next_sc tag text index w' = (Inr (Some (result_of mt sc)), w4)"
      by blast
    have v3: "valid_world w3" "valid_world w3'"
      using less.prems valid_world_cong[OF w3(2,3)] valid_world_cong[OF w3'(2,3)] by simp_all
    have av: "attrs_view w3 = attrs_view w3'"
      using less.prems attrs_view_cong[OF w3(2,3)] attrs_view_cong[OF w3'(2,3)]
      by (simp add: world_eqv_def)
    have eqv3: "world_eqv tag w3 w3'"
      using av w3(1) w3'(1) by (simp add: world_eqv_def)
    show ?thesis
    proof (cases "exec_at p text ?i")
      case None
      then show ?thesis by (simp add: n(1) n'(1) observe_def)
    next
      case (Some mt)
      note bounds = exec_at_bounds[OF Some]
      show ?thesis
      proof (cases "escaped mt")
        case True
        show ?thesis
        proof (cases "m_end mt \<le> ?i")
          case le: True
          show ?thesis by (simp add: n(2)[OF Some True le] n'(2)[OF Some True le] observe_def)
        next
          case False
          moreover have "index_or_0 (Some (m_end mt)) = m_end mt" by (simp add: index_or_0_def)
          ultimately have "length text - index_or_0 (Some (m_end mt)) < length text - ?i"
            using bounds by linarith
          from less.hyps[OF this eqv3 v3] show ?thesis
            by (simp add: n(3)[OF Some True False] n'(3)[OF Some True False])
        qed
      next
        case False
        from fromMatch_view[OF v3(1), of mt] obtain sc w4 where
          f: "fromMatch mt w3 = (Inr sc, w4)" "view sc w4 = match_view mt (attrs_view w3)"
          by blast
        from fromMatch_view[OF v3(2), of mt] obtain sc' w4' where
          f': "fromMatch mt w3' = (Inr sc', w4')" "view sc' w4' = match_view mt (attrs_view w3')"
          by blast
        show ?thesis
          using f(2) f'(2) av
          by (simp add: n(4)[OF Some False f(1)] n'(4)[OF Some False f'(1)] observe_def
                result_of_def)
      qed
    qed
  qed
qed

lemma next_sc_world:
  "valid_world w \<Longrightarrow>
     valid_world (snd (next_sc tag text index w)) \<and>
     world_eqv tag w (snd (next_sc tag text index w))"
proof (induction "length text - index_or_0 index" arbitrary: index w rule: less_induct)
  case less
  let ?i = "index_or_0 index"
  show ?case
  proof (cases "prog_of w tag")
    case (Inl e)
    with less.prems show ?thesis by (simp add: next_sc_Inl world_eqv_refl)
  next
    case (Inr p)
    from next_sc_step[OF Inr, of "text" index] obtain w3 where
      w3: "prog_of w3 tag = Inr p" "attrs_cache w3 = attrs_cache w" "heap w3 = heap w"
      and n: "exec_at p text ?i = None \<Longrightarrow> next_sc tag text index w = (Inr None, w3)"
        "\<And>mt. exec_at p text ?i = Some mt \<Longrightarrow> escaped mt \<Longrightarrow>
           m_end mt \<le> ?i \<Longrightarrow> next_sc tag text index w = (Inl RangeError, w3)"
        "\<And>mt. exec_at p text ?i = Some mt \<Longrightarrow> escaped mt \<Longrightarrow>
           \<not> m_end mt \<le> ?i \<Longrightarrow>
           next_sc tag text index w = next_sc tag text (Some (m_end mt)) w3"
        "\<And>mt sc w4. exec_at p text ?i = Some mt \<Longrightarrow> \<not> escaped mt \<Longrightarrow>
           fromMatch mt w3 = (Inr sc, w4) \<Longrightarrow>
           next_sc tag text index w = (Inr (Some (result_of mt sc)), w4)"
      by blast
    have v3: "valid_world w3" using less.prems valid_world_cong[OF w3(2,3)] by simp
    have eqv3: "world_eqv tag w w3"
      using w3(1) Inr attrs_view_cong[OF w3(2,3)] by (simp add: world_eqv_def)
    show ?thesis
    proof (cases "exec_at p text ?i")
      case None
      then show ?thesis using v3 eqv3 by (simp add: n(1))
    next
      case (Some mt)
      note bounds = exec_at_bounds[OF Some]
      show ?thesis
      proof (cases "escaped mt")
        case True
        show ?thesis
        proof (cases "m_end mt \<le> ?i")
          case le: True
          show ?thesis using v3 eqv3 by (simp add: n(2)[OF Some True le])
        next
          case False
          moreover have "index_or_0 (Some (m_end mt)) = m_end mt" by (simp add: index_or_0_def)
          ultimately have "length text - index_or_0 (Some (m_end mt)) < length text - ?i"
            using bounds by linarith
          from less.hyps[OF this v3] have
            "valid_world (snd (next_sc tag text (Some (m_end mt)) w3))"
            "world_eqv tag w3 (snd (next_sc tag text (Some (m_end mt)) w3))" by simp_all
          moreover from this(2) eqv3 have
            "world_eqv tag w (snd (next_sc tag text (Some (m_end mt)) w3))"
            by (blast intro: world_eqv_trans)
          ultimately show ?thesis by (simp add: n(3)[OF Some True False])
        qed
      next
        case False
        from fromMatch_view[OF v3, of mt] obtain sc w4 where
          f: "fromMatch mt w3 = (Inr sc, w4)" "valid_world w4" "attrs_view w4 = attrs_view w3"
             "regexp_cache w4 = regexp_cache w3"
          by blast
        have "world_eqv tag w3 w4" using f by (simp add: world_eqv_def prog_of_def)
        with eqv3 have "world_eqv tag w w4" by (rule world_eqv_trans)
        with f(2) show ?thesis by (simp add: n(4)[OF Some False f(1)])
      qed
    qed
  qed
qed

lemma set_lastIndex_eqv:
  "world_eqv tag w (set_lastIndex tag i w) \<and> valid_world (set_lastIndex tag i w) = valid_world w"
  by (auto simp: world_eqv_def set_lastIndex_def prog_of_def attrs_view_def valid_world_def
           split: option.splits)

text \<open>The well-formedness of the attribute cache is an invariant of the operations.\<close>

lemma valid_world0: "valid_world world0"
  by (simp add: valid_world_def world0_def)

lemma valid_world_regexp: "valid_world w \<Longrightarrow> regexp tag w = Inr w1 \<Longrightarrow> valid_world w1"
  by (auto simp: regexp_def valid_world_def split: option.splits sum.splits)

lemma valid_world_attrs: "valid_world w \<Longrightarrow> valid_world (snd (attrs s w))"
  by (auto simp: attrs_def alloc_def valid_world_def less_Suc_eq split: option.splits)

lemma valid_world_set_sc: "valid_world w \<Longrightarrow> valid_world (set_sc this k v w)"
  by (simp add: set_sc_def valid_world_def Let_def)


section \<open>Claims\<close>

text \<open>
  C7. Escape handling in \<open>next\<close>: \<open>next("x", "[[x]]")\<close> returns none, the fully escaped
  occurrence being skipped; \<open>next("x", "[[x]")\<close> returns a match whose single leading bracket
  is stripped from the matched text, the offset advanced by one. Both calls are made in the
  initial state of the process.
\<close>

theorem next_escape_handling:
  "observe (next_sc (js ''x'') (js ''[[x]]'') None world0) = Inr None \<and>
   observe (next_sc (js ''x'') (js ''[[x]'') None world0) =
     Inr (Some (1, js ''[x]'',
       \<lparr>v_tag = Some (js ''x''), v_attrs = \<lparr>named = [], numeric = []\<rparr>,
          v_type = Some (js ''single''), v_content = None\<rparr>))"
  by (simp add: next_sc_unfold ev_world compile_x ast_defs ev_rx)

text \<open>
  C9. Named/numeric split: the attribute parser, applied to \<open>a="1" "two" 3\<close>, yields the named
  map \<open>{a: "1"}\<close> and the numeric list \<open>["two", "3"]\<close> in order of appearance; this is the value
  of the parse itself and of the object the memoized \<open>attrs\<close> hands out in the initial state.
\<close>

theorem attrs_named_numeric_split:
  "attrs_body (js ''a=\"1\" \"two\" 3'') =
     \<lparr>named = [(js ''a'', VStr (js ''1''))], numeric = [VStr (js ''two''), VStr (js ''3'')]\<rparr> \<and>
   heap (snd (attrs (js ''a=\"1\" \"two\" 3'') world0)) ! fst (attrs (js ''a=\"1\" \"two\" 3'') world0) =
     \<lparr>named = [(js ''a'', VStr (js ''1''))], numeric = [VStr (js ''two''), VStr (js ''3'')]\<rparr>"
  by (simp add: ev_world ev_attrs ev_rx)

text \<open>
  C2. The attribute parser is claimed to be a pure function of its input text, also across
  \<open>get\<close>/\<open>set\<close> on entities constructed from the same text. The code memoizes the result
  object and the constructor stores that very object in the entity, so \<open>set\<close> on the entity
  rewrites the cached result: after \<open>attrs("a=1")\<close>, constructing an entity from \<open>"a=1"\<close> and
  calling \<open>set("a", "2")\<close> on it, a second \<open>attrs("a=1")\<close> yields \<open>{a: "2"}\<close> where the first
  yielded \<open>{a: "1"}\<close>.
\<close>

theorem attrs_cache_aliasing:
  "(case attrs (js ''a=1'') world0 of
      (a1, w1) \<Rightarrow>
        (case Shortcode \<lparr>o_tag = Some (js ''x''), o_attrs = AStr (js ''a=1''), o_type = None,
                          o_content = None\<rparr> w1 of
           (Inl e, w2) \<Rightarrow> False
         | (Inr sc, w2) \<Rightarrow>
            (case attrs (js ''a=1'') (set_sc sc (KStr (js ''a'')) (VStr (js ''2'')) w2) of
               (a2, w4) \<Rightarrow>
                 heap w1 ! a1 = \<lparr>named = [(js ''a'', VStr (js ''1''))], numeric = []\<rparr> \<and>
                 heap w4 ! a2 = \<lparr>named = [(js ''a'', VStr (js ''2''))], numeric = []\<rparr>)))"
  by (simp add: ev_world ev_attrs ev_rx)

text \<open>
  C8. An \<open>attrs\<close> object with exactly the keys \<open>named\<close> and \<open>numeric\<close> is claimed to be accepted
  as it is, whatever the order of the two keys. The constructor compares the key list with
  \<open>['named', 'numeric']\<close> in this order: an object listing \<open>named\<close> first is stored as given
  (first conjunct), one listing \<open>numeric\<close> first is treated as a flat map, and its two
  properties become named attributes called \<open>numeric\<close> and \<open>named\<close> (second conjunct).
\<close>

theorem prestructured_detection_order:
  "new_attrs \<lparr>o_tag = t, o_attrs = AObj [(js ''named'', VObj n), (js ''numeric'', VArr xs)],
              o_type = ty, o_content = c\<rparr> w = Inr \<lparr>named = n, numeric = xs\<rparr> \<and>
   new_attrs \<lparr>o_tag = t, o_attrs = AObj [(js ''numeric'', VArr [VStr (js ''a'')]), (js ''named'', VObj [])],
              o_type = ty, o_content = c\<rparr> world0 =
     Inr \<lparr>named = [(js ''numeric'', VArr [VStr (js ''a'')]), (js ''named'', VObj [])], numeric = []\<rparr>"
  by (simp add: new_attrs_def ev_world obj_set_def array_index_def is_digit_def nth_append)

















lemma replace_callback_escaped:
  "escaped mt \<Longrightarrow> replace_callback mt w = (Inr (Returned (str_of (grp mt 0))), w)"
  by (simp add: replace_callback_def escaped_def)

lemma replace_callback_other:
  "\<not> escaped mt \<Longrightarrow>
   replace_callback mt w =
     (case fromMatch mt w of
        (Inl e, w') \<Rightarrow> (Inl e, w')
      | (Inr sc, w') \<Rightarrow> (Inr (Replacer sc), w'))"
  by (auto simp: replace_callback_def escaped_def)

lemma replacer_calls_not_escaped:
  "mt \<in> set (replacer_calls rp ms w) \<Longrightarrow> \<not> escaped mt"
proof (induction ms arbitrary: w)
  case Nil
  then show ?case by simp
next
  case (Cons m ms)
  show ?case
  proof (cases "escaped m")
    case True
    with Cons.prems show ?thesis by (simp add: replace_callback_escaped)
  next
    case False
    obtain r w1 where f: "fromMatch m w = (r, w1)" by (cases "fromMatch m w")
    show ?thesis
    proof (cases r)
      case (Inl e)
      with Cons.prems False f show ?thesis by (simp add: replace_callback_other)
    next
      case (Inr sc)
      obtain c w2 where rp: "rp sc w1 = (c, w2)" by (cases "rp sc w1")
      from Cons.prems False f Inr rp have "mt = m \<or> mt \<in> set (replacer_calls rp ms w2)"
        by (cases c) (simp_all add: replace_callback_other)
      with False Cons.IH show ?thesis by blast
    qed
  qed
qed

text \<open>
  C1, as amended. In a pass of \<open>replace\<close> over any text, for any tag, \<open>replacer\<close> is never
  called for a fully escaped occurrence (first conjunct). For such an occurrence the
  function that \<open>replace\<close> hands to the engine builds no entity and leaves the state as it
  is, and the text it designates is the whole match as it stands in the source text, both
  escape brackets included: no bracket is removed (second conjunct).
\<close>

theorem replace_escaped_never_reaches_replacer:
  "(\<forall>mt \<in> set (replace_calls tag text rp w). \<not> escaped mt) \<and>
   (exec_at re text i = Some mt' \<and> escaped mt' \<longrightarrow>
      replace_callback mt' w' =
        (Inr (Returned (take (m_end mt' - m_index mt') (drop (m_index mt') text))), w'))"
proof
  show "\<forall>mt \<in> set (replace_calls tag text rp w). \<not> escaped mt"
  proof
    fix mt assume "mt \<in> set (replace_calls tag text rp w)"
    then obtain ms w1 where "mt \<in> set (replacer_calls rp ms w1)"
      by (auto simp: replace_calls_def split: sum.splits option.splits)
    then show "\<not> escaped mt" by (rule replacer_calls_not_escaped)
  qed
next
  show "exec_at re text i = Some mt' \<and> escaped mt' \<longrightarrow>
      replace_callback mt' w' =
        (Inr (Returned (take (m_end mt' - m_index mt') (drop (m_index mt') text))), w')"
    using exec_at_whole[of re "text" i mt']
    by (auto simp: replace_callback_escaped str_of_def)
qed

text \<open>The two occurrences of \<open>x\<close> in the text \<open>[x] [[x]]\<close>, as the compiled pattern matches them.\<close>

definition plain_x_match :: match_result where
  "plain_x_match =
     \<lparr>m_index = 0,
      m_groups = [Some (js ''[x]''), Some [], Some (js ''x''), Some [], None, None, None, Some []],
      m_end = 3\<rparr>"

definition escaped_x_match :: match_result where
  "escaped_x_match =
     \<lparr>m_index = 4,
      m_groups = [Some (js ''[[x]]''), Some (js ''[''), Some (js ''x''), Some [], None, None, None,
                  Some (js '']'')],
      m_end = 9\<rparr>"

lemma occurrences_x:
  "occurrences \<lparr>prog = tag_ast (js ''x''), groups = 7\<rparr> (js ''[x] [[x]]'') 0 =
     [plain_x_match, escaped_x_match]"
  apply (subst occurrences_unfold)
  apply (simp add: plain_x_match_def escaped_x_match_def ast_defs ev_rx ev_list)
  apply (subst occurrences_unfold)
  apply (simp add: plain_x_match_def escaped_x_match_def ast_defs ev_rx ev_list)
  apply (subst occurrences_unfold)
  apply (simp add: plain_x_match_def escaped_x_match_def ast_defs ev_rx ev_list)
  done

text \<open>
  Witness for C1: in the text \<open>[x] [[x]]\<close> the pattern finds the occurrence \<open>[x]\<close> and the
  fully escaped occurrence \<open>[[x]]\<close>; a pass with a \<open>replacer\<close> that reports \<open>R\<close> calls it for
  the first occurrence only, and for the second the function designates \<open>[[x]]\<close>.
\<close>

theorem replace_escaped_never_reaches_replacer_witness:
  "replace_calls (js ''x'') (js ''[x] [[x]]'') (\<lambda>sc w. (Replacement (js ''R''), w)) world0 =
     [plain_x_match] \<and>
   \<not> escaped plain_x_match \<and>
   exec_at \<lparr>prog = tag_ast (js ''x''), groups = 7\<rparr> (js ''[x] [[x]]'') 3 = Some escaped_x_match \<and>
   escaped escaped_x_match \<and>
   replace_callback escaped_x_match world0 = (Inr (Returned (js ''[[x]]'')), world0)"
proof -
  have c: "replace_calls (js ''x'') (js ''[x] [[x]]'') (\<lambda>sc w. (Replacement (js ''R''), w)) world0 =
     [plain_x_match]"
    by (simp add: replace_calls_def regexp_def world0_def compile_x occurrences_x[simplified])
       (simp add: plain_x_match_def escaped_x_match_def replace_callback_def grp_def
          fromMatch_def Shortcode_def alloc_def truthy_def)
  have e: "exec_at \<lparr>prog = tag_ast (js ''x''), groups = 7\<rparr> (js ''[x] [[x]]'') 3 = Some escaped_x_match"
    by (simp add: escaped_x_match_def ast_defs ev_rx ev_list)
  have g: "escaped escaped_x_match"
    by (simp add: escaped_x_match_def escaped_def grp_def)
  from replace_escaped_never_reaches_replacer[of "js ''x''" "js ''[x] [[x]]''"
      "\<lambda>sc w. (Replacement (js ''R''), w)" world0
      "\<lparr>prog = tag_ast (js ''x''), groups = 7\<rparr>" 3 escaped_x_match world0] c e g
  show ?thesis by (simp add: escaped_x_match_def)
qed

text \<open>
  Counterexample to C1 as stated. The text \<open>[[x]]\<close> is one fully escaped occurrence of \<open>x\<close>.
  The claim requires the output \<open>[x]\<close>. The pass has no output at all, whatever \<open>replacer\<close>
  does (here it would report \<open>R\<close>): the function returns without reporting through \<open>done\<close>.
  And the text that it returns is \<open>[[x]]\<close>, not \<open>[x]\<close>.
\<close>

theorem replace_escaped_counterexample:
  "fst (replace (js ''x'') (js ''[[x]]'') (\<lambda>sc w. (Replacement (js ''R''), w)) world0) = NoResult \<and>
   fst (replace (js ''x'') (js ''[[x]]'') (\<lambda>sc w. (Replacement (js ''R''), w)) world0)
     \<noteq> Output (js ''[x]'') \<and>
   occurrences \<lparr>prog = tag_ast (js ''x''), groups = 7\<rparr> (js ''[[x]]'') 0 =
     [\<lparr>m_index = 0,
       m_groups = [Some (js ''[[x]]''), Some (js ''[''), Some (js ''x''), Some [], None, None, None,
                   Some (js '']'')],
       m_end = 5\<rparr>] \<and>
   fst (replace_callback
     \<lparr>m_index = 0,
      m_groups = [Some (js ''[[x]]''), Some (js ''[''), Some (js ''x''), Some [], None, None, None,
                  Some (js '']'')],
      m_end = 5\<rparr> world0) = Inr (Returned (js ''[[x]]''))"
proof -
  have o: "occurrences \<lparr>prog = tag_ast (js ''x''), groups = 7\<rparr> (js ''[[x]]'') 0 =
     [\<lparr>m_index = 0,
       m_groups = [Some (js ''[[x]]''), Some (js ''[''), Some (js ''x''), Some [], None, None, None,
                   Some (js '']'')],
       m_end = 5\<rparr>]"
    apply (subst occurrences_unfold)
    apply (simp add: ast_defs ev_rx ev_list)
    apply (subst occurrences_unfold)
    apply (simp add: ast_defs ev_rx ev_list)
    done
  have r: "fst (replace (js ''x'') (js ''[[x]]'') (\<lambda>sc w. (Replacement (js ''R''), w)) world0) = NoResult"
    by (simp add: replace_def regexp_def world0_def compile_x o[simplified])
       (simp add: replace_callback_def grp_def)
  have b: "fst (replace_callback
     \<lparr>m_index = 0,
      m_groups = [Some (js ''[[x]]''), Some (js ''[''), Some (js ''x''), Some [], None, None, None,
                  Some (js '']'')],
      m_end = 5\<rparr> world0) = Inr (Returned (js ''[[x]]''))"
    by (simp add: replace_callback_def grp_def str_of_def)
  from o r b show ?thesis by simp
qed





text \<open>
  C10. \<open>next\<close> is claimed to return the same result whenever it is called again with the same
  tag, text and index. The scan position is indeed no obstacle (\<open>next\<close> overwrites
  \<open>lastIndex\<close> before it runs the pattern, see \<open>observe_next_eqv\<close>), but the entity that
  \<open>next\<close> returns holds the memoized attribute object itself: after
  \<open>next("x", "[x Key=1]")\<close>, whose entity has the named attribute \<open>key\<close> with value \<open>1\<close>, a
  \<open>set("key", "Z")\<close> on that entity rewrites the cached parse of \<open>Key=1\<close>, and the same call
  of \<open>next\<close> then returns an entity whose attribute \<open>key\<close> is \<open>Z\<close>.
\<close>

theorem next_repeated_after_set:
  "(case next_sc (js ''x'') (js ''[x Key=1]'') None world0 of
      (Inr (Some r1), w1) \<Rightarrow>
        observe (Inr (Some r1), w1) =
          Inr (Some (0, js ''[x Key=1]'',
            \<lparr>v_tag = Some (js ''x''),
             v_attrs = \<lparr>named = [(js ''key'', VStr (js ''1''))], numeric = []\<rparr>,
             v_type = Some (js ''single''), v_content = None\<rparr>)) \<and>
        observe (next_sc (js ''x'') (js ''[x Key=1]'') None
                   (set_sc (r_shortcode r1) (KStr (js ''key'')) (VStr (js ''Z'')) w1)) =
          Inr (Some (0, js ''[x Key=1]'',
            \<lparr>v_tag = Some (js ''x''),
             v_attrs = \<lparr>named = [(js ''key'', VStr (js ''Z''))], numeric = []\<rparr>,
             v_type = Some (js ''single''), v_content = None\<rparr>))
    | _ \<Rightarrow> False)"
  by (simp add: next_sc_unfold ev_world compile_x ast_defs ev_rx ev_attrs ev_list)


end
